theory Spec2Isabelle
  imports Complex_Main "HOL-Library.Word"
begin

text \<open>
  The behaviour layer of the ITEasier landing page (\<open>main.js\<close>), embedded function
  by function: each listener of the script is a function from the parts of the document
  it reads and writes to those parts after it ran, together with the exception it
  raised, if any. The document itself (the markup of the page) is a parameter: elements
  the script looks up may be absent. What the browser does on its own is left out: the
  animation of a smooth scroll (only the call of \<open>window.scrollTo\<close> is recorded), the
  timer that removes the success notice after ten seconds, and the rendering of classes.
\<close>

section \<open>JavaScript values\<close>

text \<open>
  A JavaScript string is a sequence of UTF-16 code units. String literals of the
  script are written with \<open>js\<close> where they are ASCII; a letter outside ASCII is
  spliced in as its code unit.
\<close>

type_synonym code_unit = "16 word"
type_synonym jsstring = "code_unit list"

definition js :: "string \<Rightarrow> jsstring" where
  "js s = map (\<lambda>c. of_nat (of_char c)) s"

text \<open>The exceptions the handlers of the script can raise.\<close>

datatype js_error = TypeError | URIError | SyntaxError

section \<open>Header scroll watcher (setupHeaderScroll)\<close>

text \<open>
  \<open>window.scrollY\<close> is a double and the threshold an integer literal; the comparison
  of two doubles is exact, so the offset is a real number here.
\<close>

record header_el =
  offsetHeight :: int
  header_scrolled :: bool

record header_watch =
  hdr :: header_el
  lastScrollY :: real
  ticking :: bool
  frameRequested :: bool

definition updateHeader :: "real \<Rightarrow> header_watch \<Rightarrow> header_watch" where
  "updateHeader scrollY w =
     (let h = (if scrollY > 50
               then (hdr w)\<lparr>header_scrolled := True\<rparr>
               else (hdr w)\<lparr>header_scrolled := False\<rparr>)
      in w\<lparr>hdr := h, lastScrollY := scrollY, ticking := False\<rparr>)"

text \<open>The scroll listener: at most one recomputation is requested per frame.\<close>

definition headerOnScroll :: "header_watch \<Rightarrow> header_watch" where
  "headerOnScroll w =
     (if \<not> ticking w then w\<lparr>frameRequested := True, ticking := True\<rparr> else w)"

text \<open>The browser runs a requested frame callback, reading the offset of that moment.\<close>

definition headerOnFrame :: "real \<Rightarrow> header_watch \<Rightarrow> header_watch" where
  "headerOnFrame scrollY w =
     (if frameRequested w then updateHeader scrollY (w\<lparr>frameRequested := False\<rparr>) else w)"

definition setupHeaderScroll :: "real \<Rightarrow> header_el option \<Rightarrow> header_watch option" where
  "setupHeaderScroll scrollY header =
     (case header of
        None \<Rightarrow> None
      | Some h \<Rightarrow>
          Some (updateHeader scrollY
                  \<lparr>hdr = h, lastScrollY = scrollY, ticking = False, frameRequested = False\<rparr>))"

section \<open>Scroll-to-top button watcher (setupScrollToTop)\<close>

text \<open>
  \<open>window.innerHeight\<close> is an integer; its product with 0.5 is exact in a double, and
  so is the comparison with \<open>window.scrollY\<close>.
\<close>

record scrolltop_watch =
  btn_visible :: bool
  st_ticking :: bool

definition updateScrollTopVisibility :: "real \<Rightarrow> int \<Rightarrow> scrolltop_watch \<Rightarrow> scrolltop_watch" where
  "updateScrollTopVisibility scrollY innerHeight w =
     (let threshold = real_of_int innerHeight * 0.5
      in (if scrollY > threshold
          then w\<lparr>btn_visible := True\<rparr>
          else w\<lparr>btn_visible := False\<rparr>)\<lparr>st_ticking := False\<rparr>)"

section \<open>Scroll reveal (setupScrollAnimations)\<close>

text \<open>
  Elements are named by numbers. \<open>revealed\<close> is the presence of the class
  \<open>is-visible\<close>, \<open>observed\<close> the elements the observer still watches.
\<close>

record reveal_state =
  revealed :: "nat \<Rightarrow> bool"
  observed :: "nat list"

record entry =
  target :: nat
  isIntersecting :: bool

definition revealEntry :: "reveal_state \<Rightarrow> entry \<Rightarrow> reveal_state" where
  "revealEntry s en =
     (if isIntersecting en
      then s\<lparr>revealed := (revealed s)(target en := True),
             observed := removeAll (target en) (observed s)\<rparr>
      else s)"

definition observerCallback :: "entry list \<Rightarrow> reveal_state \<Rightarrow> reveal_state" where
  "observerCallback entries s = foldl revealEntry s entries"

text \<open>The observer's life: one callback per batch of entries the browser delivers.\<close>

definition observerRun :: "entry list list \<Rightarrow> reveal_state \<Rightarrow> reveal_state" where
  "observerRun batches s = foldl (\<lambda>s entries. observerCallback entries s) s batches"

definition setupScrollAnimations :: "bool \<Rightarrow> nat list \<Rightarrow> reveal_state \<Rightarrow> reveal_state" where
  "setupScrollAnimations prefersReducedMotion animatedElements s =
     (if prefersReducedMotion \<or> animatedElements = []
      then foldl (\<lambda>s el. s\<lparr>revealed := (revealed s)(el := True)\<rparr>) s animatedElements
      else foldl (\<lambda>s el. s\<lparr>observed := observed s @ [el]\<rparr>) s animatedElements)"

section \<open>The page: header, menu toggle, navigation panel\<close>

text \<open>
  The elements the script looks up once by their ids (\<open>getElementById\<close> gives
  \<open>null\<close> for an absent one, here \<open>None\<close>), with the parts of them the handlers
  read or write. Reading a property of \<open>null\<close> raises a TypeError; what a handler
  wrote before it raised stays written, so a handler returns the error, if any, and the
  page it leaves.

  \<open>querySelector\<close>, \<open>offsetTop\<close>, \<open>tabindex\<close>, \<open>focusable\<close> and
  \<open>activeElement\<close> stand for the rest of the document: what
  \<open>document.querySelector\<close> answers for a selector (an element, none, or a
  SyntaxError for a string that is no selector) and the anchors' target elements, named
  by numbers. \<open>focusable\<close> says whether an element that has a \<open>tabindex\<close> can take
  the focus (one that is not rendered, or is disabled or inert, cannot, and \<open>focus()\<close>
  then leaves the focus where it was). \<open>scrollCalls\<close> records the calls of
  \<open>window.scrollTo\<close>, the latest first, and \<open>defaultPrevented\<close> is the flag of the
  event being handled.
\<close>

record toggle_el =
  aria_expanded :: jsstring
  aria_label :: jsstring

record nav_el =
  is_open :: bool

datatype scroll_behavior = Auto | Smooth

record page =
  header :: "header_el option"
  menuToggle :: "toggle_el option"
  mainNav :: "nav_el option"
  body_overflow :: jsstring
  prefersReducedMotion :: bool
  querySelector :: "jsstring \<Rightarrow> js_error + nat option"
  offsetTop :: "nat \<Rightarrow> int"
  tabindex :: "nat \<Rightarrow> jsstring option"
  focusable :: "nat \<Rightarrow> bool"
  activeElement :: "nat option"
  scrollCalls :: "(int \<times> scroll_behavior) list"
  defaultPrevented :: bool

definition openMobileMenu :: "page \<Rightarrow> js_error option \<times> page" where
  "openMobileMenu p =
     (case mainNav p of
        None \<Rightarrow> (Some TypeError, p)
      | Some n \<Rightarrow>
          (let p1 = p\<lparr>mainNav := Some (n\<lparr>is_open := True\<rparr>)\<rparr>
           in case menuToggle p1 of
                None \<Rightarrow> (Some TypeError, p1)
              | Some t \<Rightarrow>
                  (None, p1\<lparr>menuToggle := Some (t\<lparr>aria_expanded := js ''true'',
                                                   aria_label := js ''Zamknij menu''\<rparr>),
                            body_overflow := js ''hidden''\<rparr>)))"

definition closeMobileMenu :: "page \<Rightarrow> js_error option \<times> page" where
  "closeMobileMenu p =
     (case mainNav p of
        None \<Rightarrow> (Some TypeError, p)
      | Some n \<Rightarrow>
          (let p1 = p\<lparr>mainNav := Some (n\<lparr>is_open := False\<rparr>)\<rparr>
           in case menuToggle p1 of
                None \<Rightarrow> (Some TypeError, p1)
              | Some t \<Rightarrow>
                  (None, p1\<lparr>menuToggle := Some (t\<lparr>aria_expanded := js ''false'',
                                                   aria_label := js ''Otw'' @ [0xF3] @ js ''rz menu''\<rparr>),
                            body_overflow := []\<rparr>)))"

definition toggleMobileMenu :: "page \<Rightarrow> js_error option \<times> page" where
  "toggleMobileMenu p =
     (case mainNav p of
        None \<Rightarrow> (Some TypeError, p)
      | Some n \<Rightarrow> (let isOpen = is_open n in if isOpen then closeMobileMenu p else openMobileMenu p))"

text \<open>
  setupMobileMenu installs its three listeners only when both the toggle and the panel
  exist. The events they listen to, and what each listener does:
\<close>

datatype menu_event = ToggleClick | KeyDown jsstring | NavLinkClick

definition menuListenersInstalled :: "page \<Rightarrow> bool" where
  "menuListenersInstalled p = (\<not> (menuToggle p = None \<or> mainNav p = None))"

fun menuListener :: "menu_event \<Rightarrow> page \<Rightarrow> js_error option \<times> page" where
  "menuListener ToggleClick p = toggleMobileMenu p"
| "menuListener (KeyDown k) p =
     (if k = js ''Escape''
      then (case mainNav p of
              None \<Rightarrow> (Some TypeError, p)
            | Some n \<Rightarrow> if is_open n then closeMobileMenu p else (None, p))
      else (None, p))"
| "menuListener NavLinkClick p =
     (case mainNav p of
        None \<Rightarrow> (Some TypeError, p)
      | Some n \<Rightarrow> if is_open n then closeMobileMenu p else (None, p))"

definition menuDispatch :: "menu_event \<Rightarrow> page \<Rightarrow> js_error option \<times> page" where
  "menuDispatch ev p = (if menuListenersInstalled p then menuListener ev p else (None, p))"

text \<open>
  A run of events: an exception ends the listener that raised it, not the page, so the
  next event is dispatched on what that listener left. The errors raised are collected.
\<close>

fun menuRun :: "menu_event list \<Rightarrow> page \<Rightarrow> js_error list \<times> page" where
  "menuRun [] p = ([], p)"
| "menuRun (ev # evs) p =
     (case menuDispatch ev p of
        (r, p1) \<Rightarrow> (case menuRun evs p1 of (errs, p2) \<Rightarrow> (case r of None \<Rightarrow> errs | Some e \<Rightarrow> e # errs, p2)))"

definition menu_open :: "page \<Rightarrow> bool" where
  "menu_open p = (case mainNav p of None \<Rightarrow> False | Some n \<Rightarrow> is_open n)"

definition scroll_locked :: "page \<Rightarrow> bool" where
  "scroll_locked p = (body_overflow p = js ''hidden'')"

section \<open>Smooth scroll to in-page anchors (setupSmoothScroll)\<close>

definition scrollBehavior :: "page \<Rightarrow> scroll_behavior" where
  "scrollBehavior p = (if prefersReducedMotion p then Auto else Smooth)"

text \<open>
  The click listener of an anchor whose \<open>href\<close> attribute is \<open>targetId\<close>. Neither
  \<open>mainNav\<close> nor \<open>header\<close> is tested before it is read.
\<close>

definition anchorClick :: "jsstring \<Rightarrow> page \<Rightarrow> js_error option \<times> page" where
  "anchorClick targetId p =
     (if targetId = js ''#''
      then (None, p\<lparr>defaultPrevented := True,
                    scrollCalls := (0, scrollBehavior p) # scrollCalls p\<rparr>)
      else
        (case querySelector p targetId of
           Inl e \<Rightarrow> (Some e, p)
         | Inr None \<Rightarrow> (None, p)
         | Inr (Some targetElement) \<Rightarrow>
             (let p1 = p\<lparr>defaultPrevented := True\<rparr>
              in case mainNav p1 of
                   None \<Rightarrow> (Some TypeError, p1)
                 | Some n \<Rightarrow>
                     (case (if is_open n then closeMobileMenu p1 else (None, p1)) of
                        (Some e, p2) \<Rightarrow> (Some e, p2)
                      | (None, p2) \<Rightarrow>
                          (case header p2 of
                             None \<Rightarrow> (Some TypeError, p2)
                           | Some h \<Rightarrow>
                               (let headerHeight = offsetHeight h;
                                    targetPosition = offsetTop p2 targetElement - headerHeight
                                in (None,
                                    p2\<lparr>scrollCalls := (targetPosition, scrollBehavior p2) # scrollCalls p2,
                                       tabindex := (tabindex p2)(targetElement \<mapsto> js ''-1''),
                                       activeElement :=
                                         (if focusable p2 targetElement then Some targetElement
                                          else activeElement p2)\<rparr>)))))))"

text \<open>
  A page with every element in place, the menu closed, and one anchor target
  (\<open>#kontakt\<close>, element 7); the examples below start from it.
\<close>

definition example_page :: page where
  "example_page =
     \<lparr>header = Some \<lparr>offsetHeight = 64, header_scrolled = False\<rparr>,
      menuToggle = Some \<lparr>aria_expanded = js ''false'', aria_label = js ''Menu''\<rparr>,
      mainNav = Some \<lparr>is_open = False\<rparr>,
      body_overflow = [],
      prefersReducedMotion = False,
      querySelector = (\<lambda>s. if s = js ''#kontakt'' then Inr (Some 7) else Inr None),
      offsetTop = (\<lambda>_. 1200),
      tabindex = (\<lambda>_. None),
      focusable = (\<lambda>_. True),
      activeElement = None,
      scrollCalls = [],
      defaultPrevented = False\<rparr>"

section \<open>Strings: trim, the e-mail pattern, percent-encoding\<close>

text \<open>
  What \<open>String.prototype.trim\<close> strips and what \<open>\s\<close> matches in a regular
  expression is the same set: the WhiteSpace and LineTerminator code points.
\<close>

definition isWhiteSpace :: "code_unit \<Rightarrow> bool" where
  "isWhiteSpace c =
     ((0x09 \<le> c \<and> c \<le> 0x0D) \<or> c = 0x20 \<or> c = 0xA0 \<or> c = 0x1680
      \<or> (0x2000 \<le> c \<and> c \<le> 0x200A) \<or> c = 0x2028 \<or> c = 0x2029 \<or> c = 0x202F
      \<or> c = 0x205F \<or> c = 0x3000 \<or> c = 0xFEFF)"

definition trim :: "jsstring \<Rightarrow> jsstring" where
  "trim s = rev (dropWhile isWhiteSpace (rev (dropWhile isWhiteSpace s)))"

text \<open>
  The regular expressions the script needs: a pattern anchored at both ends (\<open>^\<close> ...
  \<open>$\<close>, no flags, so it is matched code unit by code unit and \<open>$\<close> is the end of
  the input), made of atoms taken once or one or more times (\<open>+\<close>). An atom is a
  literal code unit or a negated class (\<open>[^...]\<close>) of single code units and \<open>\s\<close>.
  \<open>matches_from\<close> is the backtracking matcher: a \<open>+\<close> takes one more code unit
  first and gives back when the rest fails.
\<close>

datatype class_item = WhiteSpaceEscape | Single code_unit

datatype atom = Literal code_unit | NegatedClass "class_item list"

datatype piece = Once atom | OneOrMore atom

fun item_matches :: "class_item \<Rightarrow> code_unit \<Rightarrow> bool" where
  "item_matches WhiteSpaceEscape c = isWhiteSpace c"
| "item_matches (Single d) c = (c = d)"

fun atom_matches :: "atom \<Rightarrow> code_unit \<Rightarrow> bool" where
  "atom_matches (Literal d) c = (c = d)"
| "atom_matches (NegatedClass items) c = (\<not> list_ex (\<lambda>i. item_matches i c) items)"

fun matches_from :: "piece list \<Rightarrow> jsstring \<Rightarrow> bool" where
  "matches_from [] s = (s = [])"
| "matches_from (Once a # r) [] = False"
| "matches_from (Once a # r) (c # cs) = (atom_matches a c \<and> matches_from r cs)"
| "matches_from (OneOrMore a # r) [] = False"
| "matches_from (OneOrMore a # r) (c # cs) =
     (atom_matches a c \<and> (matches_from (OneOrMore a # r) cs \<or> matches_from r cs))"

definition regex_test :: "piece list \<Rightarrow> jsstring \<Rightarrow> bool" where
  "regex_test r s = matches_from r s"

text \<open>\<^verbatim>\<open>/^[^\s@]+@[^\s@]+\.[^\s@]+$/\<close>\<close>

definition emailRegex :: "piece list" where
  "emailRegex =
     [OneOrMore (NegatedClass [WhiteSpaceEscape, Single 0x40]),
      Once (Literal 0x40),
      OneOrMore (NegatedClass [WhiteSpaceEscape, Single 0x40]),
      Once (Literal 0x2E),
      OneOrMore (NegatedClass [WhiteSpaceEscape, Single 0x40])]"

text \<open>
  The pattern in the specification's words: one or more characters that are neither
  whitespace nor \<open>@\<close>, then \<open>@\<close>, then one or more such characters, then a dot, then
  one or more such characters.
\<close>

definition plain_char :: "code_unit \<Rightarrow> bool" where
  "plain_char c = (\<not> isWhiteSpace c \<and> c \<noteq> 0x40)"

definition local_at_domain_dot_tld :: "jsstring \<Rightarrow> bool" where
  "local_at_domain_dot_tld v =
     (\<exists>a b c. v = a @ [0x40] @ b @ [0x2E] @ c
        \<and> a \<noteq> [] \<and> b \<noteq> [] \<and> c \<noteq> []
        \<and> list_all plain_char a \<and> list_all plain_char b \<and> list_all plain_char c)"

text \<open>
  \<open>encodeURIComponent\<close> (ECMAScript, Encode with no extra unescaped characters): the
  ASCII letters, digits and \<open>_ - . ! ~ * ' ( )\<close> stay; every other code point is
  written as the percent-escapes of its UTF-8 octets, with uppercase hexadecimal
  digits; a surrogate code unit that is not part of a pair raises a URIError.
\<close>

definition uriUnescaped :: "code_unit \<Rightarrow> bool" where
  "uriUnescaped c =
     ((0x41 \<le> c \<and> c \<le> 0x5A) \<or> (0x61 \<le> c \<and> c \<le> 0x7A) \<or> (0x30 \<le> c \<and> c \<le> 0x39)
      \<or> c = 0x5F \<or> c = 0x2D \<or> c = 0x2E \<or> c = 0x21 \<or> c = 0x7E \<or> c = 0x2A
      \<or> c = 0x27 \<or> c = 0x28 \<or> c = 0x29)"

definition isLeadingSurrogate :: "code_unit \<Rightarrow> bool" where
  "isLeadingSurrogate c = (0xD800 \<le> c \<and> c \<le> 0xDBFF)"

definition isTrailingSurrogate :: "code_unit \<Rightarrow> bool" where
  "isTrailingSurrogate c = (0xDC00 \<le> c \<and> c \<le> 0xDFFF)"

definition surrogatePairToCodePoint :: "code_unit \<Rightarrow> code_unit \<Rightarrow> nat" where
  "surrogatePairToCodePoint lead trail =
     (unat lead - 0xD800) * 0x400 + (unat trail - 0xDC00) + 0x10000"

definition utf8Octets :: "nat \<Rightarrow> nat list" where
  "utf8Octets cp =
     (if cp < 0x80 then [cp]
      else if cp < 0x800 then [0xC0 + cp div 0x40, 0x80 + cp mod 0x40]
      else if cp < 0x10000 then
        [0xE0 + cp div 0x1000, 0x80 + (cp div 0x40) mod 0x40, 0x80 + cp mod 0x40]
      else
        [0xF0 + cp div 0x40000, 0x80 + (cp div 0x1000) mod 0x40,
         0x80 + (cp div 0x40) mod 0x40, 0x80 + cp mod 0x40])"

definition hexDigit :: "nat \<Rightarrow> code_unit" where
  "hexDigit d = (if d < 10 then of_nat (0x30 + d) else of_nat (0x37 + d))"

definition percentEscape :: "nat \<Rightarrow> jsstring" where
  "percentEscape octet = [0x25, hexDigit (octet div 16), hexDigit (octet mod 16)]"

definition escapeCodePoint :: "nat \<Rightarrow> jsstring" where
  "escapeCodePoint cp = concat (map percentEscape (utf8Octets cp))"

definition emit :: "jsstring \<Rightarrow> js_error + jsstring \<Rightarrow> js_error + jsstring" where
  "emit s r = (case r of Inl e \<Rightarrow> Inl e | Inr t \<Rightarrow> Inr (s @ t))"

fun encodeURIComponent :: "jsstring \<Rightarrow> js_error + jsstring" where
  "encodeURIComponent [] = Inr []"
| "encodeURIComponent (c # cs) =
     (if uriUnescaped c then emit [c] (encodeURIComponent cs)
      else if isLeadingSurrogate c then
        (case cs of
           [] \<Rightarrow> Inl URIError
         | d # ds \<Rightarrow>
             if isTrailingSurrogate d
             then emit (escapeCodePoint (surrogatePairToCodePoint c d)) (encodeURIComponent ds)
             else Inl URIError)
      else if isTrailingSurrogate c then Inl URIError
      else emit (escapeCodePoint (unat c)) (encodeURIComponent cs))"

section \<open>Contact form (setupContactForm)\<close>

text \<open>
  An input of the form: its value, its \<open>name\<close>, whether it has the \<open>required\<close>
  attribute and the class \<open>is-invalid\<close>, and the element its errors are written to:
  the first \<open>.form-error\<close> inside the closest \<open>.form-group\<close> around it, if there is
  one. Error elements are named by numbers and their text is kept in a store of its own,
  since two inputs inside one group share the element.
\<close>

record field =
  val :: jsstring
  fname :: jsstring
  required :: bool
  is_invalid :: bool
  errorElement :: "nat option"

type_synonym error_texts = "nat \<Rightarrow> jsstring"

definition showFieldError :: "field \<Rightarrow> jsstring \<Rightarrow> error_texts \<Rightarrow> field \<times> error_texts" where
  "showFieldError f message texts =
     (f\<lparr>is_invalid := True\<rparr>,
      case errorElement f of None \<Rightarrow> texts | Some el \<Rightarrow> texts(el := message))"

definition clearFieldError :: "field \<Rightarrow> error_texts \<Rightarrow> field \<times> error_texts" where
  "clearFieldError f texts =
     (f\<lparr>is_invalid := False\<rparr>,
      case errorElement f of None \<Rightarrow> texts | Some el \<Rightarrow> texts(el := []))"

definition requiredMessage :: jsstring where
  "requiredMessage = js ''To pole jest wymagane''"

definition emailMessage :: jsstring where
  "emailMessage = js ''Podaj prawid'' @ [0x142] @ js ''owy adres e-mail''"

text \<open>The value of the local variable \<open>errorMessage\<close> when validateField tests it.\<close>

definition errorMessageOf :: "field \<Rightarrow> jsstring" where
  "errorMessageOf f =
     (let v = trim (val f); fieldName = fname f
      in if required f \<and> v = [] then requiredMessage
         else if fieldName = js ''email'' \<and> v \<noteq> []
              then (if \<not> regex_test emailRegex v then emailMessage else [])
              else [])"

definition validateField :: "field option \<Rightarrow> error_texts \<Rightarrow> bool \<times> field option \<times> error_texts" where
  "validateField fld texts =
     (case fld of
        None \<Rightarrow> (True, None, texts)
      | Some f \<Rightarrow>
          (let errorMessage = errorMessageOf f
           in if errorMessage \<noteq> []
              then (case showFieldError f errorMessage texts of (f', texts') \<Rightarrow> (False, Some f', texts'))
              else (case clearFieldError f texts of (f', texts') \<Rightarrow> (True, Some f', texts'))))"

text \<open>
  The form as the script holds it: the four inputs it looked up (any may be absent), the
  texts of the error elements, whether the form has a submit button, the success notices
  inserted after it, the links assigned to \<open>window.location.href\<close> (latest first) and
  the \<open>defaultPrevented\<close> flag of the submit event being handled.
\<close>

record contact_form =
  nameInput :: "field option"
  emailInput :: "field option"
  phoneInput :: "field option"
  messageInput :: "field option"
  errorTexts :: error_texts
  submitBtn :: bool
  successNotices :: nat
  navigations :: "jsstring list"
  submitPrevented :: bool

text \<open>The text of \<open>body\<close> before buildEmailBody encodes it.\<close>

definition emailBodyText :: "jsstring \<Rightarrow> jsstring \<Rightarrow> jsstring \<Rightarrow> jsstring \<Rightarrow> jsstring" where
  "emailBodyText name email phone message =
     (let body = js ''Imi'' @ [0x119] @ js '' i nazwisko: '' @ name @ [0x0A];
          body = body @ js ''E-mail: '' @ email @ [0x0A];
          body = (if phone \<noteq> [] then body @ js ''Telefon: '' @ phone @ [0x0A] else body);
          body = body @ [0x0A] @ js ''Wiadomo'' @ [0x15B, 0x107] @ js '':'' @ [0x0A] @ message
      in body)"

definition buildEmailBody :: "jsstring \<Rightarrow> jsstring \<Rightarrow> jsstring \<Rightarrow> jsstring \<Rightarrow> js_error + jsstring" where
  "buildEmailBody name email phone message =
     encodeURIComponent (emailBodyText name email phone message)"

text \<open>
  showFormSuccess inserts one notice after the submit button, if the form has one; the
  notices inserted are counted.
\<close>

definition showFormSuccess :: "contact_form \<Rightarrow> contact_form" where
  "showFormSuccess d = (if submitBtn d then d\<lparr>successNotices := successNotices d + 1\<rparr> else d)"

definition mailtoLink :: "jsstring \<Rightarrow> jsstring \<Rightarrow> jsstring" where
  "mailtoLink subject body =
     js ''mailto:kontakt@iteasier.pl?subject='' @ subject @ js ''&body='' @ body"

text \<open>
  The submit listener. Reading \<open>.value\<close> of an absent input raises a TypeError;
  whatever validateField wrote before stays written.
\<close>

definition submitListener :: "contact_form \<Rightarrow> js_error option \<times> contact_form" where
  "submitListener d0 =
     (let d = d0\<lparr>submitPrevented := True\<rparr> in
      case validateField (nameInput d) (errorTexts d) of (v1, n, t1) \<Rightarrow>
      case validateField (emailInput d) t1 of (v2, e, t2) \<Rightarrow>
      case validateField (messageInput d) t2 of (v3, m, t3) \<Rightarrow>
        (let d1 = d\<lparr>nameInput := n, emailInput := e, messageInput := m, errorTexts := t3\<rparr>;
             isValid = (v1 \<and> v2 \<and> v3)
         in if isValid
            then (case encodeURIComponent (js ''Zapytanie ze strony ITEasier'') of
                    Inl err \<Rightarrow> (Some err, d1)
                  | Inr subject \<Rightarrow>
                     (case n of None \<Rightarrow> (Some TypeError, d1) | Some nf \<Rightarrow>
                      case e of None \<Rightarrow> (Some TypeError, d1) | Some ef \<Rightarrow>
                      case m of None \<Rightarrow> (Some TypeError, d1) | Some mf \<Rightarrow>
                        (let phone = (case phoneInput d1 of Some pf \<Rightarrow> trim (val pf) | None \<Rightarrow> [])
                         in case buildEmailBody (trim (val nf)) (trim (val ef)) phone (trim (val mf)) of
                              Inl err \<Rightarrow> (Some err, d1)
                            | Inr body \<Rightarrow>
                                (None, showFormSuccess
                                         (d1\<lparr>navigations := mailtoLink subject body # navigations d1\<rparr>)))))
            else (None, d1)))"

text \<open>
  The blur and input listeners exist on the name, e-mail and message inputs that were
  found. A keystroke changes the value and then fires the input event.
\<close>

datatype input_id = NameInput | EmailInput | MessageInput

fun getInput :: "input_id \<Rightarrow> contact_form \<Rightarrow> field option" where
  "getInput NameInput d = nameInput d"
| "getInput EmailInput d = emailInput d"
| "getInput MessageInput d = messageInput d"

fun setInput :: "input_id \<Rightarrow> field option \<Rightarrow> contact_form \<Rightarrow> contact_form" where
  "setInput NameInput f d = d\<lparr>nameInput := f\<rparr>"
| "setInput EmailInput f d = d\<lparr>emailInput := f\<rparr>"
| "setInput MessageInput f d = d\<lparr>messageInput := f\<rparr>"

definition blurListener :: "input_id \<Rightarrow> contact_form \<Rightarrow> contact_form" where
  "blurListener i d =
     (case getInput i d of
        None \<Rightarrow> d
      | Some f \<Rightarrow>
          (case validateField (Some f) (errorTexts d) of
             (ok, f', texts') \<Rightarrow> setInput i f' (d\<lparr>errorTexts := texts'\<rparr>)))"

definition inputListener :: "input_id \<Rightarrow> contact_form \<Rightarrow> contact_form" where
  "inputListener i d =
     (case getInput i d of
        None \<Rightarrow> d
      | Some f \<Rightarrow>
          (case clearFieldError f (errorTexts d) of
             (f', texts') \<Rightarrow> setInput i (Some f') (d\<lparr>errorTexts := texts'\<rparr>)))"

definition keystroke :: "input_id \<Rightarrow> jsstring \<Rightarrow> contact_form \<Rightarrow> contact_form" where
  "keystroke i newValue d =
     inputListener i (setInput i (map_option (\<lambda>f. f\<lparr>val := newValue\<rparr>) (getInput i d)) d)"

text \<open>
  Whether validateField returns true for an input (an absent one included), and the
  error element an input writes to, if any.
\<close>

definition passes :: "field option \<Rightarrow> bool" where
  "passes fld = fst (validateField fld (\<lambda>_. []))"

definition errorElementOf :: "field option \<Rightarrow> nat option" where
  "errorElementOf fld = (case fld of None \<Rightarrow> None | Some f \<Rightarrow> errorElement f)"

text \<open>
  A form with the four inputs, each in a group with an error element of its own
  (elements 11 to 14), and a submit button.
\<close>

definition example_field :: "jsstring \<Rightarrow> jsstring \<Rightarrow> bool \<Rightarrow> nat \<Rightarrow> field" where
  "example_field name v req el =
     \<lparr>val = v, fname = name, required = req, is_invalid = False, errorElement = Some el\<rparr>"

definition example_form :: "jsstring \<Rightarrow> jsstring \<Rightarrow> jsstring \<Rightarrow> jsstring \<Rightarrow> contact_form" where
  "example_form name email phone message =
     \<lparr>nameInput = Some (example_field (js ''name'') name True 11),
      emailInput = Some (example_field (js ''email'') email True 12),
      phoneInput = Some (example_field (js ''phone'') phone False 13),
      messageInput = Some (example_field (js ''message'') message True 14),
      errorTexts = (\<lambda>_. []),
      submitBtn = True,
      successNotices = 0,
      navigations = [],
      submitPrevented = False\<rparr>"

text \<open>
  What one call of validateField leaves behind: the input with the class \<open>is-invalid\<close>
  set exactly when there is an error message, and that message (empty when there is
  none) written to the input's error element when it has one.
\<close>

definition marked :: "field \<Rightarrow> field" where
  "marked f = f\<lparr>is_invalid := (errorMessageOf f \<noteq> [])\<rparr>"

definition written :: "field option \<Rightarrow> error_texts \<Rightarrow> error_texts" where
  "written fld texts =
     (case fld of
        None \<Rightarrow> texts
      | Some f \<Rightarrow> (case errorElement f of None \<Rightarrow> texts | Some el \<Rightarrow> texts(el := errorMessageOf f)))"

text \<open>
  The form after the three calls of validateField in the submit listener (the event's
  default prevented, each of the three inputs marked or cleared, the error texts written
  in the order name, e-mail, message).
\<close>

definition afterValidation :: "contact_form \<Rightarrow> contact_form" where
  "afterValidation d =
     d\<lparr>submitPrevented := True,
       nameInput := map_option marked (nameInput d),
       emailInput := map_option marked (emailInput d),
       messageInput := map_option marked (messageInput d),
       errorTexts := written (messageInput d) (written (emailInput d) (written (nameInput d) (errorTexts d)))\<rparr>"

section \<open>Reading a percent-encoded string back\<close>

text \<open>
  \<open>decodeURIComponent\<close> (ECMAScript, Decode with nothing preserved), which the script
  does not call: it is what "the decoded body" of a link means. It is written in two
  passes. The first turns every \<open>%XY\<close> into the octet it names and fails on a \<open>%\<close>
  that two hexadecimal digits do not follow; the second reads each run of octets as the
  UTF-8 form of one code point and fails where it is not one (a stray continuation
  octet, a missing one, an overlong form, a surrogate, a value above 10FFFF). Every
  failure is a URIError.
\<close>

definition hexValue :: "code_unit \<Rightarrow> nat option" where
  "hexValue c =
     (if 0x30 \<le> c \<and> c \<le> 0x39 then Some (unat c - 0x30)
      else if 0x41 \<le> c \<and> c \<le> 0x46 then Some (unat c - 0x41 + 10)
      else if 0x61 \<le> c \<and> c \<le> 0x66 then Some (unat c - 0x61 + 10)
      else None)"

datatype token = Plain code_unit | Octet nat

fun unescape :: "jsstring \<Rightarrow> token list option" where
  "unescape [] = Some []"
| "unescape (c # cs) =
     (if c = 0x25
      then (case cs of
              x # y # rest \<Rightarrow>
                (case (hexValue x, hexValue y) of
                   (Some a, Some b) \<Rightarrow> map_option ((#) (Octet (16 * a + b))) (unescape rest)
                 | _ \<Rightarrow> None)
            | _ \<Rightarrow> None)
      else map_option ((#) (Plain c)) (unescape cs))"

definition isContinuation :: "nat \<Rightarrow> bool" where
  "isContinuation b = (0x80 \<le> b \<and> b < 0xC0)"

text \<open>A code point that \<open>lo\<close> or more is, that is no surrogate and not above 10FFFF.\<close>

definition validCodePoint :: "nat \<Rightarrow> nat \<Rightarrow> bool" where
  "validCodePoint lo v = (lo \<le> v \<and> v \<le> 0x10FFFF \<and> \<not> (0xD800 \<le> v \<and> v \<le> 0xDFFF))"

definition utf16EncodeCodePoint :: "nat \<Rightarrow> jsstring" where
  "utf16EncodeCodePoint v =
     (if v \<le> 0xFFFF then [of_nat v]
      else [of_nat ((v - 0x10000) div 0x400 + 0xD800), of_nat ((v - 0x10000) mod 0x400 + 0xDC00)])"

definition decoded :: "nat \<Rightarrow> nat \<Rightarrow> bool \<Rightarrow> jsstring option \<Rightarrow> jsstring option" where
  "decoded lo v continuations rest =
     (if continuations \<and> validCodePoint lo v
      then map_option ((@) (utf16EncodeCodePoint v)) rest
      else None)"

fun decodeOctets :: "token list \<Rightarrow> jsstring option" where
  "decodeOctets [] = Some []"
| "decodeOctets (Plain c # ts) = map_option ((#) c) (decodeOctets ts)"
| "decodeOctets (Octet b # ts) =
     (if b < 0x80 then map_option ((#) (of_nat b)) (decodeOctets ts)
      else if b < 0xC0 then None
      else if b < 0xE0 then
        (case ts of
           Octet b1 # r \<Rightarrow>
             decoded 0x80 ((b - 0xC0) * 0x40 + (b1 - 0x80))
               (isContinuation b1) (decodeOctets r)
         | _ \<Rightarrow> None)
      else if b < 0xF0 then
        (case ts of
           Octet b1 # Octet b2 # r \<Rightarrow>
             decoded 0x800 ((b - 0xE0) * 0x1000 + (b1 - 0x80) * 0x40 + (b2 - 0x80))
               (isContinuation b1 \<and> isContinuation b2) (decodeOctets r)
         | _ \<Rightarrow> None)
      else if b < 0xF8 then
        (case ts of
           Octet b1 # Octet b2 # Octet b3 # r \<Rightarrow>
             decoded 0x10000
               ((b - 0xF0) * 0x40000 + (b1 - 0x80) * 0x1000 + (b2 - 0x80) * 0x40 + (b3 - 0x80))
               (isContinuation b1 \<and> isContinuation b2 \<and> isContinuation b3) (decodeOctets r)
         | _ \<Rightarrow> None)
      else None)"

definition decodeURIComponent :: "jsstring \<Rightarrow> js_error + jsstring" where
  "decodeURIComponent s =
     (case unescape s of
        None \<Rightarrow> Inl URIError
      | Some ts \<Rightarrow> (case decodeOctets ts of None \<Rightarrow> Inl URIError | Some r \<Rightarrow> Inr r))"

text \<open>
  A string without an unpaired surrogate (\<open>String.prototype.isWellFormed\<close>): the
  strings \<open>encodeURIComponent\<close> accepts.
\<close>

fun isWellFormed :: "jsstring \<Rightarrow> bool" where
  "isWellFormed [] = True"
| "isWellFormed (c # cs) =
     (if isLeadingSurrogate c
      then (case cs of [] \<Rightarrow> False | d # ds \<Rightarrow> isTrailingSurrogate d \<and> isWellFormed ds)
      else \<not> isTrailingSurrogate c \<and> isWellFormed cs)"

text \<open>The phone argument of buildEmailBody: \<open>phoneInput ? phoneInput.value.trim() : ''\<close>.\<close>

definition phoneValue :: "contact_form \<Rightarrow> jsstring" where
  "phoneValue d = (case phoneInput d of Some pf \<Rightarrow> trim (val pf) | None \<Rightarrow> [])"

section \<open>The percent-encoded form\<close>

text \<open>
  What "percent-encoded" says of a string, written without the encoder: every code unit
  is an unreserved character standing for itself (an ASCII letter or digit, or one of
  \<open>- _ . ! ~ * ' ( )\<close>) or starts an escape \<open>%XY\<close> of two uppercase hexadecimal
  digits, and no escape is spent on an unreserved character. So no space, no \<open>&\<close>,
  \<open>=\<close>, \<open>?\<close>, \<open>#\<close>, \<open>+\<close> or \<open>/\<close> and no letter outside ASCII stands in such a
  string as itself. Together with what the string decodes to, this fixes the string.
\<close>

definition url_unreserved :: "code_unit \<Rightarrow> bool" where
  "url_unreserved c =
     (let n = unat c
      in (65 \<le> n \<and> n \<le> 90) \<or> (97 \<le> n \<and> n \<le> 122) \<or> (48 \<le> n \<and> n \<le> 57)
         \<or> n \<in> set [45, 95, 46, 33, 126, 42, 39, 40, 41])"

definition upperHexValue :: "code_unit \<Rightarrow> nat option" where
  "upperHexValue c =
     (let n = unat c
      in if 48 \<le> n \<and> n \<le> 57 then Some (n - 48)
         else if 65 \<le> n \<and> n \<le> 70 then Some (n - 55)
         else None)"

fun percent_encoded :: "jsstring \<Rightarrow> bool" where
  "percent_encoded [] = True"
| "percent_encoded (c # cs) =
     (if c = 0x25
      then (case cs of
              x # y # rest \<Rightarrow>
                (case (upperHexValue x, upperHexValue y) of
                   (Some a, Some b) \<Rightarrow> \<not> url_unreserved (of_nat (16 * a + b)) \<and> percent_encoded rest
                 | _ \<Rightarrow> False)
            | _ \<Rightarrow> False)
      else url_unreserved c \<and> percent_encoded cs)"

section \<open>Theorems\<close>

subsection \<open>Header scroll watcher\<close>

text \<open>
  C6: after every recomputation of the header watcher the header carries the scrolled
  class if and only if the vertical offset is strictly greater than 50 pixels, whatever
  the state before (no hysteresis): false for every offset up to 50, true above.
  The same holds for the recomputation a requested animation frame runs.
\<close>

theorem updateHeader_threshold:
  "header_scrolled (hdr (updateHeader y w)) = (y > 50)
   \<and> (y \<le> 50 \<longrightarrow> \<not> header_scrolled (hdr (updateHeader y w)))
   \<and> (y > 50 \<longrightarrow> header_scrolled (hdr (updateHeader y w)))
   \<and> header_scrolled (hdr (updateHeader y w)) = header_scrolled (hdr (updateHeader y w'))
   \<and> (frameRequested w \<longrightarrow> header_scrolled (hdr (headerOnFrame y w)) = (y > 50))"
  by (simp add: updateHeader_def headerOnFrame_def Let_def)

theorem updateHeader_threshold_witness:
  "\<not> header_scrolled (hdr (updateHeader 50
        \<lparr>hdr = \<lparr>offsetHeight = 64, header_scrolled = True\<rparr>,
         lastScrollY = 300, ticking = True, frameRequested = True\<rparr>))
   \<and> header_scrolled (hdr (updateHeader 50.5
        \<lparr>hdr = \<lparr>offsetHeight = 64, header_scrolled = False\<rparr>,
         lastScrollY = 0, ticking = True, frameRequested = True\<rparr>))
   \<and> header_scrolled (hdr (headerOnFrame 51
        \<lparr>hdr = \<lparr>offsetHeight = 64, header_scrolled = False\<rparr>,
         lastScrollY = 0, ticking = True, frameRequested = True\<rparr>))"
  using updateHeader_threshold [of 50
        "\<lparr>hdr = \<lparr>offsetHeight = 64, header_scrolled = True\<rparr>,
         lastScrollY = 300, ticking = True, frameRequested = True\<rparr>"]
    updateHeader_threshold [of "50.5"
        "\<lparr>hdr = \<lparr>offsetHeight = 64, header_scrolled = False\<rparr>,
         lastScrollY = 0, ticking = True, frameRequested = True\<rparr>"]
    updateHeader_threshold [of 51
        "\<lparr>hdr = \<lparr>offsetHeight = 64, header_scrolled = False\<rparr>,
         lastScrollY = 0, ticking = True, frameRequested = True\<rparr>"]
  by simp

subsection \<open>Scroll-to-top button watcher\<close>

text \<open>
  C7: after every recomputation of the scroll-top watcher the button is visible if and
  only if the vertical offset strictly exceeds half of the viewport height; for every
  offset up to half the viewport height it is hidden.
\<close>

theorem updateScrollTopVisibility_threshold:
  "btn_visible (updateScrollTopVisibility y h w) = (y > real_of_int h / 2)
   \<and> (y \<le> real_of_int h / 2 \<longrightarrow> \<not> btn_visible (updateScrollTopVisibility y h w))"
  by (simp add: updateScrollTopVisibility_def Let_def)

theorem updateScrollTopVisibility_threshold_witness:
  "\<not> btn_visible (updateScrollTopVisibility 400 800 \<lparr>btn_visible = True, st_ticking = True\<rparr>)
   \<and> btn_visible (updateScrollTopVisibility 400.5 800 \<lparr>btn_visible = False, st_ticking = True\<rparr>)
   \<and> \<not> btn_visible (updateScrollTopVisibility 400 801 \<lparr>btn_visible = True, st_ticking = True\<rparr>)"
  using updateScrollTopVisibility_threshold [of 400 800 "\<lparr>btn_visible = True, st_ticking = True\<rparr>"]
    updateScrollTopVisibility_threshold [of "400.5" 800 "\<lparr>btn_visible = False, st_ticking = True\<rparr>"]
    updateScrollTopVisibility_threshold [of 400 801 "\<lparr>btn_visible = True, st_ticking = True\<rparr>"]
  by simp

subsection \<open>Scroll reveal\<close>

lemma revealEntry_keeps: "revealed s e \<Longrightarrow> revealed (revealEntry s en) e"
  by (simp add: revealEntry_def)

lemma observerCallback_keeps: "revealed s e \<Longrightarrow> revealed (observerCallback entries s) e"
  unfolding observerCallback_def
  by (induction entries arbitrary: s) (simp_all add: revealEntry_keeps)

lemma observerRun_keeps: "revealed s e \<Longrightarrow> revealed (observerRun batches s) e"
  unfolding observerRun_def
  by (induction batches arbitrary: s) (simp_all add: observerCallback_keeps)

lemma observerRun_append:
  "observerRun (earlier @ later) s = observerRun later (observerRun earlier s)"
  by (simp add: observerRun_def)

lemma observerCallback_marks:
  "en \<in> set entries \<Longrightarrow> isIntersecting en \<Longrightarrow> revealed (observerCallback entries s) (target en)"
proof (induction entries arbitrary: s)
  case Nil
  then show ?case by simp
next
  case (Cons x xs)
  show ?case
  proof (cases "en = x")
    case True
    have "revealed (revealEntry s x) (target en)"
      using True Cons.prems(2) by (simp add: revealEntry_def)
    then have "revealed (observerCallback xs (revealEntry s x)) (target en)"
      by (rule observerCallback_keeps)
    then show ?thesis by (simp add: observerCallback_def)
  next
    case False
    with Cons.prems have "en \<in> set xs" by simp
    from Cons.IH [OF this Cons.prems(2)] show ?thesis
      by (simp add: observerCallback_def)
  qed
qed

text \<open>
  C8: for every sequence of intersection events the observer processes, an element that
  is marked revealed after some of them is still marked after all the later ones: the
  callback only ever adds the class. The first intersecting entry of an element marks it.
\<close>

theorem reveal_one_way:
  "(revealed (observerRun earlier s) e \<longrightarrow> revealed (observerRun (earlier @ later) s) e)
   \<and> (en \<in> set entries \<and> isIntersecting en \<longrightarrow>
        revealed (observerRun ((earlier @ [entries]) @ later) s) (target en))"
proof -
  have one: "revealed (observerRun earlier s) e \<longrightarrow> revealed (observerRun (earlier @ later) s) e"
    by (simp add: observerRun_append observerRun_keeps)
  have two: "revealed (observerRun ((earlier @ [entries]) @ later) s) (target en)"
    if "en \<in> set entries" "isIntersecting en"
  proof -
    have "observerRun (earlier @ [entries]) s = observerCallback entries (observerRun earlier s)"
      by (simp add: observerRun_def)
    then have "revealed (observerRun (earlier @ [entries]) s) (target en)"
      using observerCallback_marks [OF that] by simp
    then show ?thesis
      unfolding observerRun_append [of "earlier @ [entries]" later s]
      by (rule observerRun_keeps)
  qed
  from one two show ?thesis by blast
qed

theorem reveal_one_way_witness:
  "revealed (observerRun [[\<lparr>target = 3, isIntersecting = True\<rparr>]]
       \<lparr>revealed = (\<lambda>_. False), observed = [3, 4]\<rparr>) 3
   \<and> revealed (observerRun ([[\<lparr>target = 3, isIntersecting = True\<rparr>]]
        @ [[\<lparr>target = 3, isIntersecting = False\<rparr>, \<lparr>target = 4, isIntersecting = True\<rparr>]])
       \<lparr>revealed = (\<lambda>_. False), observed = [3, 4]\<rparr>) 3"
proof -
  let ?s = "\<lparr>revealed = (\<lambda>_. False), observed = [3, 4]\<rparr>"
  let ?b1 = "[[\<lparr>target = 3, isIntersecting = True\<rparr>]]"
  let ?b2 = "[[\<lparr>target = 3, isIntersecting = False\<rparr>, \<lparr>target = 4, isIntersecting = True\<rparr>]]"
  have h: "revealed (observerRun ?b1 ?s) 3"
    by (simp add: observerRun_def observerCallback_def revealEntry_def)
  from reveal_one_way [of ?b1 ?s 3 ?b2] h
  have "revealed (observerRun (?b1 @ ?b2) ?s) 3" by blast
  with h show ?thesis by blast
qed

subsection \<open>Mobile menu\<close>

lemma js_hidden_nonempty: "js ''hidden'' \<noteq> []"
  by (simp add: js_def)

lemma closeMobileMenu_installed:
  assumes "menuListenersInstalled p"
  shows "fst (closeMobileMenu p) = None"
    and "menuListenersInstalled (snd (closeMobileMenu p))"
    and "\<not> menu_open (snd (closeMobileMenu p))"
    and "\<not> scroll_locked (snd (closeMobileMenu p))"
  using assms js_hidden_nonempty [symmetric]
  by (auto simp: closeMobileMenu_def menuListenersInstalled_def menu_open_def scroll_locked_def
      Let_def split: option.splits)

lemma openMobileMenu_installed:
  assumes "menuListenersInstalled p"
  shows "fst (openMobileMenu p) = None"
    and "menuListenersInstalled (snd (openMobileMenu p))"
    and "menu_open (snd (openMobileMenu p))"
    and "scroll_locked (snd (openMobileMenu p))"
  using assms
  by (auto simp: openMobileMenu_def menuListenersInstalled_def menu_open_def scroll_locked_def
      Let_def split: option.splits)

lemma toggleMobileMenu_installed:
  assumes "menuListenersInstalled p"
  shows "fst (toggleMobileMenu p) = None"
    and "menuListenersInstalled (snd (toggleMobileMenu p))"
    and "menu_open (snd (toggleMobileMenu p)) = (\<not> menu_open p)"
    and "scroll_locked (snd (toggleMobileMenu p)) = menu_open (snd (toggleMobileMenu p))"
proof -
  obtain n where n: "mainNav p = Some n"
    using assms by (auto simp: menuListenersInstalled_def)
  show "fst (toggleMobileMenu p) = None"
    using n closeMobileMenu_installed(1) [OF assms] openMobileMenu_installed(1) [OF assms]
    by (simp add: toggleMobileMenu_def)
  show "menuListenersInstalled (snd (toggleMobileMenu p))"
    using n closeMobileMenu_installed(2) [OF assms] openMobileMenu_installed(2) [OF assms]
    by (simp add: toggleMobileMenu_def)
  show "menu_open (snd (toggleMobileMenu p)) = (\<not> menu_open p)"
    using n closeMobileMenu_installed(3) [OF assms] openMobileMenu_installed(3) [OF assms]
    by (simp add: toggleMobileMenu_def menu_open_def)
  show "scroll_locked (snd (toggleMobileMenu p)) = menu_open (snd (toggleMobileMenu p))"
    using n closeMobileMenu_installed(3,4) [OF assms] openMobileMenu_installed(3,4) [OF assms]
    by (simp add: toggleMobileMenu_def)
qed

lemma menuListener_closing:
  assumes "menuListenersInstalled p" and "ev = NavLinkClick \<or> ev = KeyDown k"
  shows "fst (menuListener ev p) = None"
    and "menuListenersInstalled (snd (menuListener ev p))"
    and "menu_open p \<and> (ev = NavLinkClick \<or> k = js ''Escape'')
         \<Longrightarrow> \<not> menu_open (snd (menuListener ev p)) \<and> \<not> scroll_locked (snd (menuListener ev p))"
    and "\<not> (menu_open p \<and> (ev = NavLinkClick \<or> k = js ''Escape'')) \<Longrightarrow> menuListener ev p = (None, p)"
proof -
  obtain n where n: "mainNav p = Some n"
    using assms(1) by (auto simp: menuListenersInstalled_def)
  note c = closeMobileMenu_installed [OF assms(1)]
  show "fst (menuListener ev p) = None"
    using n c(1) assms(2) by auto
  show "menuListenersInstalled (snd (menuListener ev p))"
    using n c(2) assms by auto
  show "\<not> menu_open (snd (menuListener ev p)) \<and> \<not> scroll_locked (snd (menuListener ev p))"
    if "menu_open p \<and> (ev = NavLinkClick \<or> k = js ''Escape'')"
    using that n c(3,4) assms(2) by (auto simp: menu_open_def)
  show "menuListener ev p = (None, p)"
    if "\<not> (menu_open p \<and> (ev = NavLinkClick \<or> k = js ''Escape''))"
    using that n assms(2) by (auto simp: menu_open_def)
qed

lemma menuDispatch_invariant:
  assumes "menuListenersInstalled p" and "scroll_locked p = menu_open p"
  shows "fst (menuDispatch ev p) = None
         \<and> menuListenersInstalled (snd (menuDispatch ev p))
         \<and> scroll_locked (snd (menuDispatch ev p)) = menu_open (snd (menuDispatch ev p))"
proof (cases ev)
  case ToggleClick
  then show ?thesis
    using toggleMobileMenu_installed [OF assms(1)] assms(1) by (simp add: menuDispatch_def)
next
  case (KeyDown k)
  then have ev: "ev = NavLinkClick \<or> ev = KeyDown k" by simp
  show ?thesis
  proof (cases "menu_open p \<and> (ev = NavLinkClick \<or> k = js ''Escape'')")
    case True
    then show ?thesis
      using menuListener_closing(1,2,3) [OF assms(1) ev] assms(1) by (simp add: menuDispatch_def)
  next
    case False
    then show ?thesis
      using menuListener_closing(4) [OF assms(1) ev] assms by (simp add: menuDispatch_def)
  qed
next
  case NavLinkClick
  then have ev: "ev = NavLinkClick \<or> ev = KeyDown []" by simp
  show ?thesis
  proof (cases "menu_open p")
    case True
    then show ?thesis
      using menuListener_closing(1,2,3) [OF assms(1) ev] assms(1) NavLinkClick
      by (simp add: menuDispatch_def)
  next
    case False
    then show ?thesis
      using menuListener_closing(4) [OF assms(1) ev] assms by (simp add: menuDispatch_def)
  qed
qed

lemma menuRun_invariant:
  "menuListenersInstalled p \<Longrightarrow> scroll_locked p = menu_open p \<Longrightarrow>
   fst (menuRun evs p) = [] \<and> scroll_locked (snd (menuRun evs p)) = menu_open (snd (menuRun evs p))"
proof (induction evs arbitrary: p)
  case Nil
  then show ?case by simp
next
  case (Cons ev evs)
  obtain r p1 where d: "menuDispatch ev p = (r, p1)" by (cases "menuDispatch ev p")
  from menuDispatch_invariant [OF Cons.prems, of ev] d
  have r: "r = None" and p1: "menuListenersInstalled p1" "scroll_locked p1 = menu_open p1"
    by simp_all
  from Cons.IH [OF p1] d r show ?case
    by (simp split: prod.splits)
qed

text \<open>
  C5: where the menu exists (toggle and panel are in the document, so the listeners are
  installed), a toggle click flips the open state; Escape closes an open menu and leaves
  a closed one as it is; a click on a navigation link closes an open menu; after each of
  these transitions the body scroll lock is on exactly when the menu is open; and from
  the closed, unlocked start no run of events raises an error or breaks that equality.
\<close>

theorem mobile_menu_machine:
  "menuListenersInstalled p \<longrightarrow>
     (fst (menuDispatch ToggleClick p) = None
      \<and> menu_open (snd (menuDispatch ToggleClick p)) = (\<not> menu_open p)
      \<and> scroll_locked (snd (menuDispatch ToggleClick p)) = menu_open (snd (menuDispatch ToggleClick p)))
   \<and> (menu_open p \<longrightarrow>
        fst (menuDispatch (KeyDown (js ''Escape'')) p) = None
        \<and> \<not> menu_open (snd (menuDispatch (KeyDown (js ''Escape'')) p))
        \<and> \<not> scroll_locked (snd (menuDispatch (KeyDown (js ''Escape'')) p)))
   \<and> (\<not> menu_open p \<longrightarrow> menuDispatch (KeyDown (js ''Escape'')) p = (None, p))
   \<and> (menu_open p \<longrightarrow>
        fst (menuDispatch NavLinkClick p) = None
        \<and> \<not> menu_open (snd (menuDispatch NavLinkClick p))
        \<and> \<not> scroll_locked (snd (menuDispatch NavLinkClick p)))
   \<and> (\<not> menu_open p \<and> \<not> scroll_locked p \<longrightarrow>
        fst (menuRun evs p) = []
        \<and> scroll_locked (snd (menuRun evs p)) = menu_open (snd (menuRun evs p)))"
proof
  assume inst: "menuListenersInstalled p"
  have ev1: "KeyDown (js ''Escape'') = NavLinkClick \<or> KeyDown (js ''Escape'') = KeyDown (js ''Escape'')"
    by simp
  have ev2: "NavLinkClick = NavLinkClick \<or> NavLinkClick = KeyDown []"
    by simp
  have a: "fst (menuDispatch ToggleClick p) = None
      \<and> menu_open (snd (menuDispatch ToggleClick p)) = (\<not> menu_open p)
      \<and> scroll_locked (snd (menuDispatch ToggleClick p)) = menu_open (snd (menuDispatch ToggleClick p))"
    using toggleMobileMenu_installed [OF inst] inst by (simp add: menuDispatch_def)
  have b: "fst (menuDispatch (KeyDown (js ''Escape'')) p) = None
        \<and> \<not> menu_open (snd (menuDispatch (KeyDown (js ''Escape'')) p))
        \<and> \<not> scroll_locked (snd (menuDispatch (KeyDown (js ''Escape'')) p))" if "menu_open p"
    using menuListener_closing(1,3) [OF inst ev1] that inst by (simp add: menuDispatch_def)
  have c: "menuDispatch (KeyDown (js ''Escape'')) p = (None, p)" if "\<not> menu_open p"
    using menuListener_closing(4) [OF inst ev1] that inst by (simp add: menuDispatch_def)
  have d: "fst (menuDispatch NavLinkClick p) = None
        \<and> \<not> menu_open (snd (menuDispatch NavLinkClick p))
        \<and> \<not> scroll_locked (snd (menuDispatch NavLinkClick p))" if "menu_open p"
    using menuListener_closing(1,3) [OF inst ev2] that inst by (simp add: menuDispatch_def)
  have e: "fst (menuRun evs p) = []
        \<and> scroll_locked (snd (menuRun evs p)) = menu_open (snd (menuRun evs p))"
    if "\<not> menu_open p \<and> \<not> scroll_locked p"
    using menuRun_invariant [OF inst, of evs] that by simp
  from a b c d e show "(fst (menuDispatch ToggleClick p) = None
      \<and> menu_open (snd (menuDispatch ToggleClick p)) = (\<not> menu_open p)
      \<and> scroll_locked (snd (menuDispatch ToggleClick p)) = menu_open (snd (menuDispatch ToggleClick p)))
   \<and> (menu_open p \<longrightarrow>
        fst (menuDispatch (KeyDown (js ''Escape'')) p) = None
        \<and> \<not> menu_open (snd (menuDispatch (KeyDown (js ''Escape'')) p))
        \<and> \<not> scroll_locked (snd (menuDispatch (KeyDown (js ''Escape'')) p)))
   \<and> (\<not> menu_open p \<longrightarrow> menuDispatch (KeyDown (js ''Escape'')) p = (None, p))
   \<and> (menu_open p \<longrightarrow>
        fst (menuDispatch NavLinkClick p) = None
        \<and> \<not> menu_open (snd (menuDispatch NavLinkClick p))
        \<and> \<not> scroll_locked (snd (menuDispatch NavLinkClick p)))
   \<and> (\<not> menu_open p \<and> \<not> scroll_locked p \<longrightarrow>
        fst (menuRun evs p) = []
        \<and> scroll_locked (snd (menuRun evs p)) = menu_open (snd (menuRun evs p)))"
    by blast
qed

theorem mobile_menu_machine_witness:
  "menuListenersInstalled example_page
   \<and> \<not> menu_open example_page \<and> \<not> scroll_locked example_page
   \<and> menu_open (snd (menuDispatch ToggleClick example_page))
   \<and> scroll_locked (snd (menuDispatch ToggleClick example_page))
   \<and> \<not> menu_open (snd (menuDispatch (KeyDown (js ''Escape'')) (snd (menuDispatch ToggleClick example_page))))
   \<and> \<not> scroll_locked (snd (menuDispatch NavLinkClick (snd (menuDispatch ToggleClick example_page))))
   \<and> menuDispatch (KeyDown (js ''Escape'')) example_page = (None, example_page)
   \<and> fst (menuRun [ToggleClick, KeyDown (js ''Escape''), ToggleClick, NavLinkClick, ToggleClick]
             example_page) = []
   \<and> scroll_locked (snd (menuRun [ToggleClick, KeyDown (js ''Escape''), ToggleClick, NavLinkClick, ToggleClick]
             example_page))
      = menu_open (snd (menuRun [ToggleClick, KeyDown (js ''Escape''), ToggleClick, NavLinkClick, ToggleClick]
             example_page))"
proof -
  let ?evs = "[ToggleClick, KeyDown (js ''Escape''), ToggleClick, NavLinkClick, ToggleClick]"
  let ?p1 = "snd (menuDispatch ToggleClick example_page)"
  have inst: "menuListenersInstalled example_page"
    by (simp add: example_page_def menuListenersInstalled_def)
  have closed: "\<not> menu_open example_page"
    by (simp add: example_page_def menu_open_def)
  have unlocked: "\<not> scroll_locked example_page"
    by (simp add: example_page_def scroll_locked_def js_def)
  have inst1: "menuListenersInstalled ?p1"
    by (simp add: example_page_def menuListenersInstalled_def menuDispatch_def
        toggleMobileMenu_def openMobileMenu_def)
  note m0 = mobile_menu_machine [of example_page ?evs]
  note m1 = mobile_menu_machine [of ?p1 "[]"]
  from m0 inst closed unlocked have open1: "menu_open ?p1" "scroll_locked ?p1"
    by simp_all
  from m1 inst1 open1 m0 inst closed unlocked show ?thesis
    by simp
qed

subsection \<open>Smooth scroll\<close>

text \<open>
  C4: the click listener of an in-page anchor reads \<open>mainNav.classList\<close> and
  \<open>header.offsetHeight\<close> without testing either element. For an anchor whose target
  element exists, the listener raises a TypeError whenever the navigation panel or the
  header is absent from the document, after it has prevented the default navigation.
\<close>

theorem anchorClick_absent_element_raises:
  "querySelector p targetId = Inr (Some el) \<and> targetId \<noteq> js ''#''
     \<and> (mainNav p = None \<or> header p = None)
   \<longrightarrow> fst (anchorClick targetId p) = Some TypeError
       \<and> defaultPrevented (snd (anchorClick targetId p))"
  by (auto simp: anchorClick_def closeMobileMenu_def Let_def split: option.splits prod.splits)

theorem anchorClick_absent_element_raises_witness:
  "anchorClick (js ''#kontakt'') (example_page\<lparr>mainNav := None\<rparr>)
     = (Some TypeError, example_page\<lparr>mainNav := None, defaultPrevented := True\<rparr>)
   \<and> fst (anchorClick (js ''#kontakt'') (example_page\<lparr>header := None\<rparr>)) = Some TypeError
   \<and> fst (anchorClick (js ''#kontakt'') example_page) = None"
proof -
  have q: "querySelector (example_page\<lparr>mainNav := None\<rparr>) (js ''#kontakt'') = Inr (Some 7)"
    "querySelector (example_page\<lparr>header := None\<rparr>) (js ''#kontakt'') = Inr (Some 7)"
    by (simp_all add: example_page_def)
  have ne: "js ''#kontakt'' \<noteq> js ''#''"
    by (simp add: js_def)
  have a: "mainNav (example_page\<lparr>mainNav := None\<rparr>) = None"
    and b: "header (example_page\<lparr>header := None\<rparr>) = None"
    by simp_all
  have one: "fst (anchorClick (js ''#kontakt'') (example_page\<lparr>mainNav := None\<rparr>)) = Some TypeError"
    using anchorClick_absent_element_raises [of "example_page\<lparr>mainNav := None\<rparr>" "js ''#kontakt''" 7]
      q(1) ne a by blast
  have two: "fst (anchorClick (js ''#kontakt'') (example_page\<lparr>header := None\<rparr>)) = Some TypeError"
    using anchorClick_absent_element_raises [of "example_page\<lparr>header := None\<rparr>" "js ''#kontakt''" 7]
      q(2) ne b by blast
  have st: "snd (anchorClick (js ''#kontakt'') (example_page\<lparr>mainNav := None\<rparr>))
       = example_page\<lparr>mainNav := None, defaultPrevented := True\<rparr>"
    using ne by (simp add: anchorClick_def example_page_def)
  have three: "fst (anchorClick (js ''#kontakt'') example_page) = None"
    using ne by (simp add: anchorClick_def example_page_def Let_def)
  from one st have "anchorClick (js ''#kontakt'') (example_page\<lparr>mainNav := None\<rparr>)
     = (Some TypeError, example_page\<lparr>mainNav := None, defaultPrevented := True\<rparr>)"
    by (simp add: prod_eq_iff)
  with two three show ?thesis by blast
qed

subsection \<open>The e-mail pattern\<close>

lemma plain_atom_fun: "atom_matches (NegatedClass [WhiteSpaceEscape, Single 0x40]) = plain_char"
  by (rule ext) (simp add: plain_char_def)

lemma matches_plus:
  "matches_from (OneOrMore a # r) s
   = (\<exists>x y. s = x @ y \<and> x \<noteq> [] \<and> list_all (atom_matches a) x \<and> matches_from r y)"
proof (induction s)
  case Nil
  then show ?case by simp
next
  case (Cons c cs)
  show ?case
  proof
    assume m: "matches_from (OneOrMore a # r) (c # cs)"
    then have c: "atom_matches a c" by simp
    from m have "matches_from (OneOrMore a # r) cs \<or> matches_from r cs" by simp
    then show "\<exists>x y. c # cs = x @ y \<and> x \<noteq> [] \<and> list_all (atom_matches a) x \<and> matches_from r y"
    proof
      assume "matches_from (OneOrMore a # r) cs"
      with Cons.IH obtain x y
        where "cs = x @ y" "x \<noteq> []" "list_all (atom_matches a) x" "matches_from r y"
        by blast
      with c have "c # cs = (c # x) @ y \<and> c # x \<noteq> []
          \<and> list_all (atom_matches a) (c # x) \<and> matches_from r y"
        by simp
      then show ?thesis by blast
    next
      assume "matches_from r cs"
      with c have "c # cs = [c] @ cs \<and> [c] \<noteq> []
          \<and> list_all (atom_matches a) [c] \<and> matches_from r cs"
        by simp
      then show ?thesis by blast
    qed
  next
    assume "\<exists>x y. c # cs = x @ y \<and> x \<noteq> [] \<and> list_all (atom_matches a) x \<and> matches_from r y"
    then obtain x y
      where xy: "c # cs = x @ y" "x \<noteq> []" "list_all (atom_matches a) x" "matches_from r y"
      by blast
    then obtain x' where x: "x = c # x'" by (cases x) auto
    with xy have cs: "cs = x' @ y" and c: "atom_matches a c" and x': "list_all (atom_matches a) x'"
      by simp_all
    show "matches_from (OneOrMore a # r) (c # cs)"
    proof (cases "x' = []")
      case True
      with cs xy(4) c show ?thesis by simp
    next
      case False
      with cs x' xy(4) Cons.IH have "matches_from (OneOrMore a # r) cs" by blast
      with c show ?thesis by simp
    qed
  qed
qed

lemma matches_once:
  "matches_from (Once (Literal d) # r) s = (\<exists>y. s = d # y \<and> matches_from r y)"
  by (cases s) auto

lemma matches_end_plus:
  "matches_from [OneOrMore a] s = (s \<noteq> [] \<and> list_all (atom_matches a) s)"
  by (auto simp: matches_plus)

lemma emailRegex_unfolded:
  "matches_from emailRegex v =
     (\<exists>a y1. v = a @ y1 \<and> a \<noteq> [] \<and> list_all plain_char a \<and>
        (\<exists>y2. y1 = 0x40 # y2 \<and>
           (\<exists>b y3. y2 = b @ y3 \<and> b \<noteq> [] \<and> list_all plain_char b \<and>
              (\<exists>y4. y3 = 0x2E # y4 \<and> y4 \<noteq> [] \<and> list_all plain_char y4))))"
  unfolding emailRegex_def
  by (subst matches_plus, subst matches_once, subst matches_plus, subst matches_once,
      subst matches_end_plus, simp only: plain_atom_fun)

lemma emailRegex_iff: "regex_test emailRegex v = local_at_domain_dot_tld v"
proof
  assume "regex_test emailRegex v"
  then obtain a b c where "v = a @ (0x40 # (b @ (0x2E # c)))" "a \<noteq> []" "b \<noteq> []" "c \<noteq> []"
    "list_all plain_char a" "list_all plain_char b" "list_all plain_char c"
    unfolding regex_test_def emailRegex_unfolded by blast
  then have "v = a @ [0x40] @ b @ [0x2E] @ c
        \<and> a \<noteq> [] \<and> b \<noteq> [] \<and> c \<noteq> []
        \<and> list_all plain_char a \<and> list_all plain_char b \<and> list_all plain_char c"
    by simp
  then show "local_at_domain_dot_tld v"
    unfolding local_at_domain_dot_tld_def by blast
next
  assume "local_at_domain_dot_tld v"
  then obtain a b c
    where v: "v = a @ [0x40] @ b @ [0x2E] @ c" and ne: "a \<noteq> []" "b \<noteq> []" "c \<noteq> []"
      and pl: "list_all plain_char a" "list_all plain_char b" "list_all plain_char c"
    unfolding local_at_domain_dot_tld_def by blast
  have 4: "\<exists>y4. 0x2E # c = 0x2E # y4 \<and> y4 \<noteq> [] \<and> list_all plain_char y4"
    using ne pl by blast
  have 3: "\<exists>b' y3. b @ 0x2E # c = b' @ y3 \<and> b' \<noteq> [] \<and> list_all plain_char b' \<and>
              (\<exists>y4. y3 = 0x2E # y4 \<and> y4 \<noteq> [] \<and> list_all plain_char y4)"
    using 4 ne pl by blast
  have 2: "\<exists>y2. 0x40 # b @ 0x2E # c = 0x40 # y2 \<and>
           (\<exists>b' y3. y2 = b' @ y3 \<and> b' \<noteq> [] \<and> list_all plain_char b' \<and>
              (\<exists>y4. y3 = 0x2E # y4 \<and> y4 \<noteq> [] \<and> list_all plain_char y4))"
    using 3 by blast
  have v': "v = a @ (0x40 # b @ 0x2E # c)" using v by simp
  have "matches_from emailRegex v"
    unfolding emailRegex_unfolded using v' ne(1) pl(1) 2 by blast
  then show "regex_test emailRegex v" by (simp add: regex_test_def)
qed

lemma shape_has_at: "local_at_domain_dot_tld v \<Longrightarrow> 0x40 \<in> set v"
  by (auto simp: local_at_domain_dot_tld_def)

subsection \<open>Field validation\<close>

lemma emailMessage_nonempty: "emailMessage \<noteq> []"
  by (simp add: emailMessage_def js_def)

lemma requiredMessage_nonempty: "requiredMessage \<noteq> []"
  by (simp add: requiredMessage_def js_def)

lemma errorMessageOf_email:
  "fname f = js ''email'' \<Longrightarrow> trim (val f) \<noteq> [] \<Longrightarrow>
   errorMessageOf f = (if local_at_domain_dot_tld (trim (val f)) then [] else emailMessage)"
  by (simp add: errorMessageOf_def Let_def emailRegex_iff)

lemma errorMessageOf_required:
  "required f \<Longrightarrow> trim (val f) = [] \<Longrightarrow> errorMessageOf f = requiredMessage"
  by (simp add: errorMessageOf_def Let_def)

lemma validateField_eq:
  "validateField fld texts = (passes fld, map_option marked fld, written fld texts)"
  by (cases fld)
     (auto simp: validateField_def passes_def marked_def written_def showFieldError_def
        clearFieldError_def Let_def split: option.splits)

lemma passes_Some: "passes (Some f) = (errorMessageOf f = [])"
  by (simp add: passes_def validateField_def Let_def showFieldError_def clearFieldError_def)

lemma passes_None: "passes None"
  by (simp add: passes_def validateField_def)

text \<open>
  C3: for an e-mail input (an input named \<open>email\<close>) whose trimmed value is not empty,
  validateField returns true if and only if the trimmed value has the shape: one or more
  characters that are neither whitespace nor \<open>@\<close>, then \<open>@\<close>, one or more such
  characters, a dot, one or more such characters. A value that fails yields the message
  \<open>Podaj prawidlowy adres e-mail\<close> (with the Polish l): validateField marks the input
  invalid and writes that message to its error element.
\<close>

theorem email_validation:
  "fname f = js ''email'' \<and> trim (val f) \<noteq> [] \<longrightarrow>
     fst (validateField (Some f) texts) = local_at_domain_dot_tld (trim (val f))
     \<and> (\<not> local_at_domain_dot_tld (trim (val f)) \<longrightarrow>
          errorMessageOf f = emailMessage
          \<and> validateField (Some f) texts
              = (False, Some (f\<lparr>is_invalid := True\<rparr>),
                 case errorElement f of None \<Rightarrow> texts | Some el \<Rightarrow> texts(el := emailMessage)))"
proof
  assume a: "fname f = js ''email'' \<and> trim (val f) \<noteq> []"
  then have m: "errorMessageOf f = (if local_at_domain_dot_tld (trim (val f)) then [] else emailMessage)"
    by (simp add: errorMessageOf_email)
  have one: "fst (validateField (Some f) texts) = local_at_domain_dot_tld (trim (val f))"
    using m emailMessage_nonempty by (simp add: validateField_eq passes_Some)
  have two: "errorMessageOf f = emailMessage
          \<and> validateField (Some f) texts
              = (False, Some (f\<lparr>is_invalid := True\<rparr>),
                 case errorElement f of None \<Rightarrow> texts | Some el \<Rightarrow> texts(el := emailMessage))"
    if "\<not> local_at_domain_dot_tld (trim (val f))"
    using m that emailMessage_nonempty
    by (simp add: validateField_def Let_def showFieldError_def)
  from one two show "fst (validateField (Some f) texts) = local_at_domain_dot_tld (trim (val f))
     \<and> (\<not> local_at_domain_dot_tld (trim (val f)) \<longrightarrow>
          errorMessageOf f = emailMessage
          \<and> validateField (Some f) texts
              = (False, Some (f\<lparr>is_invalid := True\<rparr>),
                 case errorElement f of None \<Rightarrow> texts | Some el \<Rightarrow> texts(el := emailMessage)))"
    by blast
qed

theorem email_validation_witness:
  "\<not> fst (validateField (Some (example_field (js ''email'') (js ''not-an-email'') True 12)) (\<lambda>_. []))
   \<and> (snd (snd (validateField (Some (example_field (js ''email'') (js ''not-an-email'') True 12)) (\<lambda>_. []))))
        12 = emailMessage
   \<and> fst (validateField (Some (example_field (js ''email'') (js ''user@example.com'') True 12)) (\<lambda>_. []))"
proof -
  let ?bad = "example_field (js ''email'') (js ''not-an-email'') True 12"
  let ?good = "example_field (js ''email'') (js ''user@example.com'') True 12"
  have tb: "trim (val ?bad) = js ''not-an-email''"
    by (simp add: example_field_def trim_def js_def isWhiteSpace_def)
  have tg: "trim (val ?good) = js ''user@example.com''"
    by (simp add: example_field_def trim_def js_def isWhiteSpace_def)
  have ne: "js ''not-an-email'' \<noteq> []" "js ''user@example.com'' \<noteq> []"
    by (simp_all add: js_def)
  have nm: "fname ?bad = js ''email''" "fname ?good = js ''email''"
    by (simp_all add: example_field_def)
  have el: "errorElement ?bad = Some 12"
    by (simp add: example_field_def)
  have "0x40 \<notin> set (js ''not-an-email'')"
    by (simp add: js_def)
  then have b: "\<not> local_at_domain_dot_tld (trim (val ?bad))"
    using shape_has_at [of "js ''not-an-email''"] by (auto simp: tb)
  have "js ''user@example.com'' = js ''user'' @ [0x40] @ js ''example'' @ [0x2E] @ js ''com''
      \<and> js ''user'' \<noteq> [] \<and> js ''example'' \<noteq> [] \<and> js ''com'' \<noteq> []
      \<and> list_all plain_char (js ''user'') \<and> list_all plain_char (js ''example'')
      \<and> list_all plain_char (js ''com'')"
    by (simp add: js_def plain_char_def isWhiteSpace_def)
  then have g: "local_at_domain_dot_tld (trim (val ?good))"
    unfolding tg local_at_domain_dot_tld_def by blast
  from email_validation [of ?bad "\<lambda>_. []"] b nm(1) tb ne(1) el
  have 1: "\<not> fst (validateField (Some ?bad) (\<lambda>_. []))"
    and 2: "(snd (snd (validateField (Some ?bad) (\<lambda>_. [])))) 12 = emailMessage"
    by simp_all
  from email_validation [of ?good "\<lambda>_. []"] g nm(2) tg ne(2)
  have 3: "fst (validateField (Some ?good) (\<lambda>_. []))"
    by simp
  from 1 2 3 show ?thesis by blast
qed

subsection \<open>Blur and input listeners\<close>

lemma getInput_setInput [simp]: "getInput i (setInput i x d) = x"
  by (cases i) simp_all

lemma errorTexts_setInput [simp]: "errorTexts (setInput i x d) = errorTexts d"
  by (cases i) simp_all

lemma getInput_errorTexts_update [simp]: "getInput i (d\<lparr>errorTexts := t\<rparr>) = getInput i d"
  by (cases i) simp_all

lemma blurListener_eq:
  "getInput i d = Some f \<Longrightarrow>
   blurListener i d = setInput i (Some (marked f)) (d\<lparr>errorTexts := written (Some f) (errorTexts d)\<rparr>)"
  by (simp add: blurListener_def validateField_eq)

lemma inputListener_eq:
  "getInput i d = Some f \<Longrightarrow>
   inputListener i d
     = setInput i (Some (f\<lparr>is_invalid := False\<rparr>))
         (d\<lparr>errorTexts := (case errorElement f of None \<Rightarrow> errorTexts d
                               | Some el \<Rightarrow> (errorTexts d)(el := []))\<rparr>)"
  by (simp add: inputListener_def clearFieldError_def)

text \<open>
  C9: when one of the inputs that have the listeners (name, e-mail, message) is blurred
  while it is required and empty after trimming, it is marked invalid and the message
  \<open>To pole jest wymagane\<close> is written to its error element. An input event on such an
  input, alone or after a keystroke that changed the value to anything at all, removes
  the mark and empties the error element; the new value is not validated (the result is
  the same whatever the value is).
\<close>

theorem blur_marks_input_clears:
  "getInput i d = Some f \<longrightarrow>
     (required f \<and> trim (val f) = [] \<longrightarrow>
        getInput i (blurListener i d) = Some (f\<lparr>is_invalid := True\<rparr>)
        \<and> (\<forall>el. errorElement f = Some el \<longrightarrow> errorTexts (blurListener i d) el = requiredMessage))
     \<and> getInput i (inputListener i d) = Some (f\<lparr>is_invalid := False\<rparr>)
     \<and> (\<forall>el. errorElement f = Some el \<longrightarrow> errorTexts (inputListener i d) el = [])
     \<and> getInput i (keystroke i v d) = Some (f\<lparr>val := v, is_invalid := False\<rparr>)
     \<and> (\<forall>el. errorElement f = Some el \<longrightarrow> errorTexts (keystroke i v d) el = [])"
proof
  assume f: "getInput i d = Some f"
  have blur: "getInput i (blurListener i d) = Some (f\<lparr>is_invalid := True\<rparr>)
        \<and> (\<forall>el. errorElement f = Some el \<longrightarrow> errorTexts (blurListener i d) el = requiredMessage)"
    if "required f \<and> trim (val f) = []"
    using that requiredMessage_nonempty
    by (simp add: blurListener_eq [OF f] marked_def written_def errorMessageOf_required)
  have inp: "getInput i (inputListener i d) = Some (f\<lparr>is_invalid := False\<rparr>)
     \<and> (\<forall>el. errorElement f = Some el \<longrightarrow> errorTexts (inputListener i d) el = [])"
    by (simp add: inputListener_eq [OF f])
  let ?d = "setInput i (Some (f\<lparr>val := v\<rparr>)) d"
  have g: "getInput i ?d = Some (f\<lparr>val := v\<rparr>)" by simp
  have key: "getInput i (keystroke i v d) = Some (f\<lparr>val := v, is_invalid := False\<rparr>)
     \<and> (\<forall>el. errorElement f = Some el \<longrightarrow> errorTexts (keystroke i v d) el = [])"
    using f by (simp add: keystroke_def inputListener_eq [OF g])
  from blur inp key
  show "(required f \<and> trim (val f) = [] \<longrightarrow>
        getInput i (blurListener i d) = Some (f\<lparr>is_invalid := True\<rparr>)
        \<and> (\<forall>el. errorElement f = Some el \<longrightarrow> errorTexts (blurListener i d) el = requiredMessage))
     \<and> getInput i (inputListener i d) = Some (f\<lparr>is_invalid := False\<rparr>)
     \<and> (\<forall>el. errorElement f = Some el \<longrightarrow> errorTexts (inputListener i d) el = [])
     \<and> getInput i (keystroke i v d) = Some (f\<lparr>val := v, is_invalid := False\<rparr>)
     \<and> (\<forall>el. errorElement f = Some el \<longrightarrow> errorTexts (keystroke i v d) el = [])"
    by blast
qed

text \<open>
  The example: the empty, required name input is blurred, then a space is typed into it.
  The value is still empty after trimming, and the mark and the message are gone.
\<close>

theorem blur_marks_input_clears_witness:
  "getInput NameInput (blurListener NameInput (example_form [] [] [] []))
     = Some ((example_field (js ''name'') [] True 11)\<lparr>is_invalid := True\<rparr>)
   \<and> errorTexts (blurListener NameInput (example_form [] [] [] [])) 11 = requiredMessage
   \<and> getInput NameInput (keystroke NameInput [0x20] (blurListener NameInput (example_form [] [] [] [])))
     = Some ((example_field (js ''name'') [] True 11)\<lparr>val := [0x20], is_invalid := False\<rparr>)
   \<and> errorTexts (keystroke NameInput [0x20] (blurListener NameInput (example_form [] [] [] []))) 11 = []
   \<and> errorMessageOf ((example_field (js ''name'') [] True 11)\<lparr>val := [0x20]\<rparr>) = requiredMessage"
proof -
  let ?d = "example_form [] [] [] []"
  let ?f = "example_field (js ''name'') [] True 11"
  let ?d1 = "blurListener NameInput ?d"
  have f: "getInput NameInput ?d = Some ?f"
    by (simp add: example_form_def)
  have r: "required ?f \<and> trim (val ?f) = []"
    by (simp add: example_field_def trim_def)
  have el: "errorElement ?f = Some 11" "errorElement (?f\<lparr>is_invalid := True\<rparr>) = Some 11"
    by (simp_all add: example_field_def)
  from blur_marks_input_clears [of NameInput ?d ?f] f r el
  have b1: "getInput NameInput ?d1 = Some (?f\<lparr>is_invalid := True\<rparr>)"
    and b2: "errorTexts ?d1 11 = requiredMessage"
    by simp_all
  from blur_marks_input_clears [of NameInput ?d1 "?f\<lparr>is_invalid := True\<rparr>" "[0x20]"] b1 el
  have k1: "getInput NameInput (keystroke NameInput [0x20] ?d1)
      = Some (?f\<lparr>val := [0x20], is_invalid := False\<rparr>)"
    and k2: "errorTexts (keystroke NameInput [0x20] ?d1) 11 = []"
    by simp_all
  have still: "errorMessageOf (?f\<lparr>val := [0x20]\<rparr>) = requiredMessage"
    by (rule errorMessageOf_required)
       (simp_all add: example_field_def trim_def isWhiteSpace_def)
  from b1 b2 k1 k2 still show ?thesis by blast
qed

subsection \<open>Submit listener\<close>

lemma subject_encoded:
  "encodeURIComponent (js ''Zapytanie ze strony ITEasier'')
     = Inr (js ''Zapytanie%20ze%20strony%20ITEasier'')"
  by (simp add: js_def uriUnescaped_def emit_def isLeadingSurrogate_def isTrailingSurrogate_def
      escapeCodePoint_def utf8Octets_def percentEscape_def hexDigit_def)

lemma submitListener_invalid:
  "\<not> (passes (nameInput d) \<and> passes (emailInput d) \<and> passes (messageInput d)) \<Longrightarrow>
   submitListener d = (None, afterValidation d)"
  by (auto simp: submitListener_def validateField_eq Let_def afterValidation_def)

lemma submitListener_absent:
  "passes (nameInput d) \<and> passes (emailInput d) \<and> passes (messageInput d) \<Longrightarrow>
   nameInput d = None \<or> emailInput d = None \<or> messageInput d = None \<Longrightarrow>
   submitListener d = (Some TypeError, afterValidation d)"
  by (auto simp: submitListener_def validateField_eq Let_def afterValidation_def subject_encoded
      split: option.splits)

lemma written_other:
  "errorElementOf fld \<noteq> Some el \<Longrightarrow> written fld texts el = texts el"
  by (auto simp: written_def errorElementOf_def split: option.splits)

lemma written_own:
  "errorElement f = Some el \<Longrightarrow> written (Some f) texts el = errorMessageOf f"
  by (simp add: written_def)

text \<open>
  C2: when at least one of the name, e-mail and message inputs fails validation, the
  submit listener raises nothing, assigns no link to \<open>window.location.href\<close>, inserts no
  success notice, and leaves every one of the three inputs marked invalid exactly when it
  failed; the phone input is untouched. The error element of an input (where the page
  gives the input one that no input validated after it shares) then holds the input's
  message if it failed and the empty text if it passed.
\<close>

theorem invalid_submit_shows_errors_only:
  "\<not> (passes (nameInput d) \<and> passes (emailInput d) \<and> passes (messageInput d)) \<longrightarrow>
     fst (submitListener d) = None
     \<and> submitPrevented (snd (submitListener d))
     \<and> navigations (snd (submitListener d)) = navigations d
     \<and> successNotices (snd (submitListener d)) = successNotices d
     \<and> nameInput (snd (submitListener d))
         = map_option (\<lambda>f. f\<lparr>is_invalid := \<not> passes (Some f)\<rparr>) (nameInput d)
     \<and> emailInput (snd (submitListener d))
         = map_option (\<lambda>f. f\<lparr>is_invalid := \<not> passes (Some f)\<rparr>) (emailInput d)
     \<and> messageInput (snd (submitListener d))
         = map_option (\<lambda>f. f\<lparr>is_invalid := \<not> passes (Some f)\<rparr>) (messageInput d)
     \<and> phoneInput (snd (submitListener d)) = phoneInput d
     \<and> (\<forall>f el. nameInput d = Some f \<and> errorElement f = Some el
            \<and> errorElementOf (emailInput d) \<noteq> Some el \<and> errorElementOf (messageInput d) \<noteq> Some el
          \<longrightarrow> errorTexts (snd (submitListener d)) el = errorMessageOf f
              \<and> (errorMessageOf f = []) = passes (Some f))
     \<and> (\<forall>f el. emailInput d = Some f \<and> errorElement f = Some el
            \<and> errorElementOf (messageInput d) \<noteq> Some el
          \<longrightarrow> errorTexts (snd (submitListener d)) el = errorMessageOf f
              \<and> (errorMessageOf f = []) = passes (Some f))
     \<and> (\<forall>f el. messageInput d = Some f \<and> errorElement f = Some el
          \<longrightarrow> errorTexts (snd (submitListener d)) el = errorMessageOf f
              \<and> (errorMessageOf f = []) = passes (Some f))"
proof
  assume "\<not> (passes (nameInput d) \<and> passes (emailInput d) \<and> passes (messageInput d))"
  then have s: "submitListener d = (None, afterValidation d)"
    by (rule submitListener_invalid)
  have mk: "marked = (\<lambda>f. f\<lparr>is_invalid := \<not> passes (Some f)\<rparr>)"
    by (rule ext) (simp add: marked_def passes_Some)
  have flags: "fst (submitListener d) = None
     \<and> submitPrevented (snd (submitListener d))
     \<and> navigations (snd (submitListener d)) = navigations d
     \<and> successNotices (snd (submitListener d)) = successNotices d
     \<and> phoneInput (snd (submitListener d)) = phoneInput d"
    by (simp add: s afterValidation_def)
  have marks: "nameInput (snd (submitListener d))
         = map_option (\<lambda>f. f\<lparr>is_invalid := \<not> passes (Some f)\<rparr>) (nameInput d)
     \<and> emailInput (snd (submitListener d))
         = map_option (\<lambda>f. f\<lparr>is_invalid := \<not> passes (Some f)\<rparr>) (emailInput d)
     \<and> messageInput (snd (submitListener d))
         = map_option (\<lambda>f. f\<lparr>is_invalid := \<not> passes (Some f)\<rparr>) (messageInput d)"
    by (simp add: s afterValidation_def mk)
  have t: "errorTexts (snd (submitListener d))
      = written (messageInput d) (written (emailInput d) (written (nameInput d) (errorTexts d)))"
    by (simp add: s afterValidation_def)
  have n: "errorTexts (snd (submitListener d)) el = errorMessageOf f
              \<and> (errorMessageOf f = []) = passes (Some f)"
    if "nameInput d = Some f \<and> errorElement f = Some el
            \<and> errorElementOf (emailInput d) \<noteq> Some el \<and> errorElementOf (messageInput d) \<noteq> Some el"
    for f el
    using that by (simp add: t written_other written_own passes_Some)
  have e: "errorTexts (snd (submitListener d)) el = errorMessageOf f
              \<and> (errorMessageOf f = []) = passes (Some f)"
    if "emailInput d = Some f \<and> errorElement f = Some el
            \<and> errorElementOf (messageInput d) \<noteq> Some el"
    for f el
    using that by (simp add: t written_other written_own passes_Some)
  have m: "errorTexts (snd (submitListener d)) el = errorMessageOf f
              \<and> (errorMessageOf f = []) = passes (Some f)"
    if "messageInput d = Some f \<and> errorElement f = Some el"
    for f el
    using that by (simp add: t written_own passes_Some)
  from flags marks n e m
  show "fst (submitListener d) = None
     \<and> submitPrevented (snd (submitListener d))
     \<and> navigations (snd (submitListener d)) = navigations d
     \<and> successNotices (snd (submitListener d)) = successNotices d
     \<and> nameInput (snd (submitListener d))
         = map_option (\<lambda>f. f\<lparr>is_invalid := \<not> passes (Some f)\<rparr>) (nameInput d)
     \<and> emailInput (snd (submitListener d))
         = map_option (\<lambda>f. f\<lparr>is_invalid := \<not> passes (Some f)\<rparr>) (emailInput d)
     \<and> messageInput (snd (submitListener d))
         = map_option (\<lambda>f. f\<lparr>is_invalid := \<not> passes (Some f)\<rparr>) (messageInput d)
     \<and> phoneInput (snd (submitListener d)) = phoneInput d
     \<and> (\<forall>f el. nameInput d = Some f \<and> errorElement f = Some el
            \<and> errorElementOf (emailInput d) \<noteq> Some el \<and> errorElementOf (messageInput d) \<noteq> Some el
          \<longrightarrow> errorTexts (snd (submitListener d)) el = errorMessageOf f
              \<and> (errorMessageOf f = []) = passes (Some f))
     \<and> (\<forall>f el. emailInput d = Some f \<and> errorElement f = Some el
            \<and> errorElementOf (messageInput d) \<noteq> Some el
          \<longrightarrow> errorTexts (snd (submitListener d)) el = errorMessageOf f
              \<and> (errorMessageOf f = []) = passes (Some f))
     \<and> (\<forall>f el. messageInput d = Some f \<and> errorElement f = Some el
          \<longrightarrow> errorTexts (snd (submitListener d)) el = errorMessageOf f
              \<and> (errorMessageOf f = []) = passes (Some f))"
    by blast
qed

text \<open>
  The example: name empty, e-mail \<open>not-an-email\<close>, message \<open>Hello\<close>. Exactly the
  first two inputs end up marked, each with its message; the third is clean.
\<close>

theorem invalid_submit_shows_errors_only_witness:
  "fst (submitListener (example_form [] (js ''not-an-email'') [] (js ''Hello''))) = None
   \<and> navigations (snd (submitListener (example_form [] (js ''not-an-email'') [] (js ''Hello'')))) = []
   \<and> successNotices (snd (submitListener (example_form [] (js ''not-an-email'') [] (js ''Hello'')))) = 0
   \<and> nameInput (snd (submitListener (example_form [] (js ''not-an-email'') [] (js ''Hello''))))
       = Some ((example_field (js ''name'') [] True 11)\<lparr>is_invalid := True\<rparr>)
   \<and> emailInput (snd (submitListener (example_form [] (js ''not-an-email'') [] (js ''Hello''))))
       = Some ((example_field (js ''email'') (js ''not-an-email'') True 12)\<lparr>is_invalid := True\<rparr>)
   \<and> messageInput (snd (submitListener (example_form [] (js ''not-an-email'') [] (js ''Hello''))))
       = Some ((example_field (js ''message'') (js ''Hello'') True 14)\<lparr>is_invalid := False\<rparr>)
   \<and> errorTexts (snd (submitListener (example_form [] (js ''not-an-email'') [] (js ''Hello'')))) 11
       = requiredMessage
   \<and> errorTexts (snd (submitListener (example_form [] (js ''not-an-email'') [] (js ''Hello'')))) 12
       = emailMessage
   \<and> errorTexts (snd (submitListener (example_form [] (js ''not-an-email'') [] (js ''Hello'')))) 14
       = []"
proof -
  let ?d = "example_form [] (js ''not-an-email'') [] (js ''Hello'')"
  let ?n = "example_field (js ''name'') [] True 11"
  let ?e = "example_field (js ''email'') (js ''not-an-email'') True 12"
  let ?m = "example_field (js ''message'') (js ''Hello'') True 14"
  have inputs: "nameInput ?d = Some ?n" "emailInput ?d = Some ?e" "messageInput ?d = Some ?m"
    "navigations ?d = []" "successNotices ?d = 0"
    by (simp_all add: example_form_def)
  have els: "errorElement ?n = Some 11" "errorElement ?e = Some 12" "errorElement ?m = Some 14"
    by (simp_all add: example_field_def)
  have others: "errorElementOf (emailInput ?d) \<noteq> Some 11" "errorElementOf (messageInput ?d) \<noteq> Some 11"
    "errorElementOf (messageInput ?d) \<noteq> Some 12"
    by (simp_all add: inputs errorElementOf_def els)
  have n: "errorMessageOf ?n = requiredMessage"
    by (rule errorMessageOf_required) (simp_all add: example_field_def trim_def)
  have te: "trim (val ?e) = js ''not-an-email''"
    by (simp add: example_field_def trim_def js_def isWhiteSpace_def)
  have "0x40 \<notin> set (js ''not-an-email'')"
    by (simp add: js_def)
  then have "\<not> local_at_domain_dot_tld (trim (val ?e))"
    using shape_has_at [of "js ''not-an-email''"] by (auto simp: te)
  moreover have "fname ?e = js ''email''" "trim (val ?e) \<noteq> []"
    by (simp_all add: te) (simp_all add: example_field_def js_def)
  ultimately have e: "errorMessageOf ?e = emailMessage"
    by (simp add: errorMessageOf_email)
  have m: "errorMessageOf ?m = []"
    by (simp add: errorMessageOf_def example_field_def trim_def js_def isWhiteSpace_def Let_def)
  have p: "\<not> passes (Some ?n)" "\<not> passes (Some ?e)" "passes (Some ?m)"
    using requiredMessage_nonempty emailMessage_nonempty by (simp_all add: passes_Some n e m)
  then have hyp: "\<not> (passes (nameInput ?d) \<and> passes (emailInput ?d) \<and> passes (messageInput ?d))"
    by (simp add: inputs)
  from invalid_submit_shows_errors_only [of ?d] hyp
  have r: "fst (submitListener ?d) = None"
    "navigations (snd (submitListener ?d)) = navigations ?d"
    "successNotices (snd (submitListener ?d)) = successNotices ?d"
    "nameInput (snd (submitListener ?d))
         = map_option (\<lambda>f. f\<lparr>is_invalid := \<not> passes (Some f)\<rparr>) (nameInput ?d)"
    "emailInput (snd (submitListener ?d))
         = map_option (\<lambda>f. f\<lparr>is_invalid := \<not> passes (Some f)\<rparr>) (emailInput ?d)"
    "messageInput (snd (submitListener ?d))
         = map_option (\<lambda>f. f\<lparr>is_invalid := \<not> passes (Some f)\<rparr>) (messageInput ?d)"
    and tn: "\<And>f el. nameInput ?d = Some f \<and> errorElement f = Some el
            \<and> errorElementOf (emailInput ?d) \<noteq> Some el \<and> errorElementOf (messageInput ?d) \<noteq> Some el
          \<Longrightarrow> errorTexts (snd (submitListener ?d)) el = errorMessageOf f"
    and tem: "\<And>f el. emailInput ?d = Some f \<and> errorElement f = Some el
            \<and> errorElementOf (messageInput ?d) \<noteq> Some el
          \<Longrightarrow> errorTexts (snd (submitListener ?d)) el = errorMessageOf f"
    and tm: "\<And>f el. messageInput ?d = Some f \<and> errorElement f = Some el
          \<Longrightarrow> errorTexts (snd (submitListener ?d)) el = errorMessageOf f"
    by blast+
  have t1: "errorTexts (snd (submitListener ?d)) 11 = requiredMessage"
    using tn [of ?n 11] inputs els others n by simp
  have t2: "errorTexts (snd (submitListener ?d)) 12 = emailMessage"
    using tem [of ?e 12] inputs els others e by simp
  have t4: "errorTexts (snd (submitListener ?d)) 14 = []"
    using tm [of ?m 14] inputs els m by simp
  from r t1 t2 t4 p inputs show ?thesis
    by simp
qed

text \<open>
  C10: validateField returns true for an absent input and changes nothing. So in a form
  that lacks the name, the e-mail or the message input, the absent input never stops a
  submit: when the inputs that are there pass, the listener goes on to build the body
  and reads \<open>.value\<close> of the absent input, which raises a TypeError before any link is
  assigned or any notice inserted; when one of them fails, the listener returns as for
  any invalid submit.
\<close>

theorem absent_input_passes_then_is_read:
  "validateField None texts = (True, None, texts)
   \<and> passes None
   \<and> (nameInput d = None \<or> emailInput d = None \<or> messageInput d = None \<longrightarrow>
        (passes (nameInput d) \<and> passes (emailInput d) \<and> passes (messageInput d) \<longrightarrow>
           fst (submitListener d) = Some TypeError
           \<and> navigations (snd (submitListener d)) = navigations d
           \<and> successNotices (snd (submitListener d)) = successNotices d)
        \<and> (\<not> (passes (nameInput d) \<and> passes (emailInput d) \<and> passes (messageInput d)) \<longrightarrow>
             fst (submitListener d) = None))"
proof -
  have one: "validateField None texts = (True, None, texts)"
    by (simp add: validateField_def)
  have two: "fst (submitListener d) = Some TypeError
           \<and> navigations (snd (submitListener d)) = navigations d
           \<and> successNotices (snd (submitListener d)) = successNotices d"
    if "nameInput d = None \<or> emailInput d = None \<or> messageInput d = None"
      and "passes (nameInput d) \<and> passes (emailInput d) \<and> passes (messageInput d)"
    using submitListener_absent [OF that(2) that(1)] by (simp add: afterValidation_def)
  have three: "fst (submitListener d) = None"
    if "\<not> (passes (nameInput d) \<and> passes (emailInput d) \<and> passes (messageInput d))"
    using submitListener_invalid [OF that] by simp
  from one two three passes_None show ?thesis by blast
qed

theorem absent_input_passes_then_is_read_witness:
  "passes (nameInput ((example_form [] (js ''jan@example.com'') [] (js ''Hello''))\<lparr>nameInput := None\<rparr>))
   \<and> fst (submitListener ((example_form [] (js ''jan@example.com'') [] (js ''Hello''))\<lparr>nameInput := None\<rparr>))
       = Some TypeError
   \<and> navigations (snd (submitListener ((example_form [] (js ''jan@example.com'') [] (js ''Hello''))\<lparr>nameInput := None\<rparr>)))
       = []"
proof -
  let ?d = "(example_form [] (js ''jan@example.com'') [] (js ''Hello''))\<lparr>nameInput := None\<rparr>"
  let ?e = "example_field (js ''email'') (js ''jan@example.com'') True 12"
  let ?m = "example_field (js ''message'') (js ''Hello'') True 14"
  have inputs: "nameInput ?d = None" "emailInput ?d = Some ?e" "messageInput ?d = Some ?m"
    "navigations ?d = []"
    by (simp_all add: example_form_def)
  have te: "trim (val ?e) = js ''jan@example.com''"
    by (simp add: example_field_def trim_def js_def isWhiteSpace_def)
  have "js ''jan@example.com'' = js ''jan'' @ [0x40] @ js ''example'' @ [0x2E] @ js ''com''
      \<and> js ''jan'' \<noteq> [] \<and> js ''example'' \<noteq> [] \<and> js ''com'' \<noteq> []
      \<and> list_all plain_char (js ''jan'') \<and> list_all plain_char (js ''example'')
      \<and> list_all plain_char (js ''com'')"
    by (simp add: js_def plain_char_def isWhiteSpace_def)
  then have "local_at_domain_dot_tld (trim (val ?e))"
    unfolding te local_at_domain_dot_tld_def by blast
  moreover have "fname ?e = js ''email''" "trim (val ?e) \<noteq> []"
    by (simp_all add: te) (simp_all add: example_field_def js_def)
  ultimately have e: "errorMessageOf ?e = []"
    by (simp add: errorMessageOf_email)
  have m: "errorMessageOf ?m = []"
    by (simp add: errorMessageOf_def example_field_def trim_def js_def isWhiteSpace_def Let_def)
  have p: "passes (nameInput ?d) \<and> passes (emailInput ?d) \<and> passes (messageInput ?d)"
    by (simp add: inputs passes_None passes_Some e m)
  from absent_input_passes_then_is_read [of "\<lambda>_. []" ?d] p inputs
  show ?thesis by simp
qed

subsection \<open>Percent-encoding and decoding\<close>

lemma of_nat_unat_id: "of_nat (unat (c::code_unit)) = c"
  by simp

lemma unat_lt: "unat (c::code_unit) < 0x10000"
  using unsigned_less [of c, where 'a = nat] by simp

lemma unat_of_nat16: "n < 0x10000 \<Longrightarrow> unat (of_nat n :: code_unit) = n"
  by (simp add: unat_of_nat)

lemma unat_hexDigit:
  "d < 16 \<Longrightarrow> unat (hexDigit d) = (if d < 10 then 0x30 + d else 0x37 + d)"
  unfolding hexDigit_def
  using unat_of_nat16 [of "0x30 + d"] unat_of_nat16 [of "0x37 + d"]
  by simp

lemma hexValue_hexDigit: "d < 16 \<Longrightarrow> hexValue (hexDigit d) = Some d"
  by (simp add: hexValue_def word_le_nat_alt unat_hexDigit)

lemma unescape_percentEscape:
  "b < 256 \<Longrightarrow> unescape (percentEscape b @ t) = map_option ((#) (Octet b)) (unescape t)"
proof -
  assume b: "b < 256"
  then have "b div 16 < 16" "b mod 16 < 16" by auto
  then have h: "hexValue (hexDigit (b div 16)) = Some (b div 16)"
    "hexValue (hexDigit (b mod 16)) = Some (b mod 16)"
    by (simp_all add: hexValue_hexDigit)
  have "16 * (b div 16) + b mod 16 = b" by simp
  then show ?thesis
    by (simp add: percentEscape_def h)
qed

lemma unescape_unescaped:
  "uriUnescaped c \<Longrightarrow> unescape (c # t) = map_option ((#) (Plain c)) (unescape t)"
  by (auto simp: uriUnescaped_def)


lemma utf8Octets_bytes: "cp < 0x110000 \<Longrightarrow> \<forall>b \<in> set (utf8Octets cp). b < 256"
  by (auto simp: utf8Octets_def)

lemma unescape_octets:
  "\<forall>b \<in> set bs. b < 256 \<Longrightarrow>
   unescape (concat (map percentEscape bs) @ t) = map_option ((@) (map Octet bs)) (unescape t)"
proof (induction bs)
  case Nil
  show ?case by (simp add: option.map_ident)
next
  case (Cons b bs)
  then have "unescape (concat (map percentEscape bs) @ t) = map_option ((@) (map Octet bs)) (unescape t)"
    and b: "b < 256"
    by simp_all
  then show ?case
    using unescape_percentEscape [OF b, of "concat (map percentEscape bs) @ t"]
    by (simp add: option.map_comp comp_def)
qed

lemma unescape_escapeCodePoint:
  "cp < 0x110000 \<Longrightarrow>
   unescape (escapeCodePoint cp @ t) = map_option ((@) (map Octet (utf8Octets cp))) (unescape t)"
  unfolding escapeCodePoint_def by (rule unescape_octets) (rule utf8Octets_bytes)

lemma utf16_bmp:
  "\<not> isLeadingSurrogate c \<Longrightarrow> \<not> isTrailingSurrogate c \<Longrightarrow>
   utf16EncodeCodePoint (unat c) = [c] \<and> validCodePoint 0 (unat c)"
  using unat_lt [of c]
  by (auto simp: utf16EncodeCodePoint_def validCodePoint_def isLeadingSurrogate_def
      isTrailingSurrogate_def word_le_nat_alt)

lemma pair_range:
  "isLeadingSurrogate c \<Longrightarrow> isTrailingSurrogate d \<Longrightarrow>
   0x10000 \<le> surrogatePairToCodePoint c d \<and> surrogatePairToCodePoint c d \<le> 0x10FFFF"
  by (auto simp: surrogatePairToCodePoint_def isLeadingSurrogate_def
      isTrailingSurrogate_def word_le_nat_alt)

lemma utf16_pair:
  "isLeadingSurrogate c \<Longrightarrow> isTrailingSurrogate d \<Longrightarrow>
   utf16EncodeCodePoint (surrogatePairToCodePoint c d) = [c, d]"
proof -
  assume c: "isLeadingSurrogate c" and d: "isTrailingSurrogate d"
  define uc where "uc = unat c"
  define ud where "ud = unat d"
  have bc: "0xD800 \<le> uc" "uc \<le> 0xDBFF" and bd: "0xDC00 \<le> ud" "ud \<le> 0xDFFF"
    using c d by (simp_all add: uc_def ud_def isLeadingSurrogate_def isTrailingSurrogate_def word_le_nat_alt)
  let ?v = "(uc - 0xD800) * 0x400 + (ud - 0xDC00) + 0x10000"
  have big: "\<not> ?v \<le> 0xFFFF" by simp
  have hi: "(?v - 0x10000) div 0x400 + 0xD800 = uc"
    using bc bd by simp
  have small: "ud - 0xDC00 < 0x400"
    using bd by simp
  have "?v - 0x10000 = (uc - 0xD800) * 0x400 + (ud - 0xDC00)"
    by simp
  then have "(?v - 0x10000) mod 0x400 = ud - 0xDC00"
    using small by (simp only: mod_mult_self3 mod_less)
  then have lo: "(?v - 0x10000) mod 0x400 + 0xDC00 = ud"
    using bd by simp
  have "utf16EncodeCodePoint ?v = [of_nat uc, of_nat ud]"
    unfolding utf16EncodeCodePoint_def using big hi lo by (simp only: if_False)
  then show ?thesis
    by (simp add: surrogatePairToCodePoint_def uc_def ud_def)
qed

lemma split2: "(cp div 0x40) * 0x40 + cp mod 0x40 = (cp::nat)"
  by simp

lemma shift_split: "(q div m) * (m * k) + (q mod m) * k = q * (k::nat)"
proof -
  have "q * k = ((q div m) * m + q mod m) * k"
    by (simp only: div_mult_mod_eq)
  also have "\<dots> = (q div m) * (m * k) + (q mod m) * k"
    by (simp only: distrib_right mult.assoc)
  finally show ?thesis by (rule sym)
qed

lemma split3: "(cp div 0x1000) * 0x1000 + ((cp div 0x40) mod 0x40) * 0x40 + cp mod 0x40 = (cp::nat)"
proof -
  define q where "q = cp div 0x40"
  have d: "cp div 0x1000 = q div 0x40"
    unfolding q_def by (simp add: div_mult2_eq [symmetric])
  have "(q div 0x40) * 0x1000 + (q mod 0x40) * 0x40 = q * 0x40"
    using shift_split [of q "0x40" "0x40"] by simp
  then have "(q div 0x40) * 0x1000 + (q mod 0x40) * 0x40 + cp mod 0x40 = q * 0x40 + cp mod 0x40"
    by simp
  also have "\<dots> = cp" unfolding q_def by simp
  finally show ?thesis unfolding d q_def .
qed

lemma split4:
  "(cp div 0x40000) * 0x40000 + ((cp div 0x1000) mod 0x40) * 0x1000
     + ((cp div 0x40) mod 0x40) * 0x40 + cp mod 0x40 = (cp::nat)"
proof -
  define r where "r = cp div 0x1000"
  have d: "cp div 0x40000 = r div 0x40"
    unfolding r_def by (simp add: div_mult2_eq [symmetric])
  have "(r div 0x40) * 0x40000 + (r mod 0x40) * 0x1000 = r * 0x1000"
    using shift_split [of r "0x40" "0x1000"] by simp
  then have "(r div 0x40) * 0x40000 + (r mod 0x40) * 0x1000
      + ((cp div 0x40) mod 0x40) * 0x40 + cp mod 0x40
      = r * 0x1000 + ((cp div 0x40) mod 0x40) * 0x40 + cp mod 0x40"
    by simp
  also have "\<dots> = cp" unfolding r_def by (rule split3)
  finally show ?thesis unfolding d r_def .
qed


lemma map_option_single: "map_option ((@) [x]) y = map_option ((#) x) y"
  by (cases y) simp_all

lemma continuation_low: "isContinuation (0x80 + n mod 0x40)"
  by (simp add: isContinuation_def)

lemma decodeOctets_1:
  assumes "cp < 0x80"
  shows "decodeOctets (map Octet (utf8Octets cp) @ ts)
     = map_option ((@) (utf16EncodeCodePoint cp)) (decodeOctets ts)"
  using assms by (simp add: utf8Octets_def utf16EncodeCodePoint_def map_option_single)

lemma decodeOctets_2:
  assumes "0x80 \<le> cp" "cp < 0x800"
  shows "decodeOctets (map Octet (utf8Octets cp) @ ts)
     = map_option ((@) (utf16EncodeCodePoint cp)) (decodeOctets ts)"
proof -
  define b0 where "b0 = 0xC0 + cp div 0x40"
  define b1 where "b1 = 0x80 + cp mod 0x40"
  have o: "utf8Octets cp = [b0, b1]"
    using assms by (simp add: utf8Octets_def b0_def b1_def)
  have "cp div 0x40 < 0x20" using assms(2) by simp
  then have r: "\<not> b0 < 0x80" "\<not> b0 < 0xC0" "b0 < 0xE0"
    by (simp_all add: b0_def)
  have v: "(b0 - 0xC0) * 0x40 + (b1 - 0x80) = cp"
    by (simp add: b0_def b1_def)
  have c: "isContinuation b1"
    unfolding b1_def by (rule continuation_low)
  have ok: "validCodePoint 0x80 cp"
    using assms by (simp add: validCodePoint_def)
  show ?thesis
    by (simp add: o r v c ok decoded_def)
qed

lemma decodeOctets_3:
  assumes "0x800 \<le> cp" "cp < 0x10000" "\<not> (0xD800 \<le> cp \<and> cp \<le> 0xDFFF)"
  shows "decodeOctets (map Octet (utf8Octets cp) @ ts)
     = map_option ((@) (utf16EncodeCodePoint cp)) (decodeOctets ts)"
proof -
  define b0 where "b0 = 0xE0 + cp div 0x1000"
  define b1 where "b1 = 0x80 + (cp div 0x40) mod 0x40"
  define b2 where "b2 = 0x80 + cp mod 0x40"
  have o: "utf8Octets cp = [b0, b1, b2]"
    using assms by (simp add: utf8Octets_def b0_def b1_def b2_def)
  have "cp div 0x1000 < 0x10" using assms(2) by simp
  then have r: "\<not> b0 < 0x80" "\<not> b0 < 0xC0" "\<not> b0 < 0xE0" "b0 < 0xF0"
    by (simp_all add: b0_def)
  have v: "(b0 - 0xE0) * 0x1000 + (b1 - 0x80) * 0x40 + (b2 - 0x80) = cp"
    using split3 [of cp] by (simp add: b0_def b1_def b2_def)
  have c: "isContinuation b1" "isContinuation b2"
    unfolding b1_def b2_def by (rule continuation_low)+
  have ok: "validCodePoint 0x800 cp"
    using assms by (simp add: validCodePoint_def)
  show ?thesis
    by (simp add: o r v c ok decoded_def)
qed

lemma decodeOctets_4:
  assumes "0x10000 \<le> cp" "cp \<le> 0x10FFFF"
  shows "decodeOctets (map Octet (utf8Octets cp) @ ts)
     = map_option ((@) (utf16EncodeCodePoint cp)) (decodeOctets ts)"
proof -
  define b0 where "b0 = 0xF0 + cp div 0x40000"
  define b1 where "b1 = 0x80 + (cp div 0x1000) mod 0x40"
  define b2 where "b2 = 0x80 + (cp div 0x40) mod 0x40"
  define b3 where "b3 = 0x80 + cp mod 0x40"
  have o: "utf8Octets cp = [b0, b1, b2, b3]"
    using assms by (simp add: utf8Octets_def b0_def b1_def b2_def b3_def)
  have "cp div 0x40000 < 0x8" using assms(2) by simp
  then have r: "\<not> b0 < 0x80" "\<not> b0 < 0xC0" "\<not> b0 < 0xE0" "\<not> b0 < 0xF0" "b0 < 0xF8"
    by (simp_all add: b0_def)
  have v: "(b0 - 0xF0) * 0x40000 + (b1 - 0x80) * 0x1000 + (b2 - 0x80) * 0x40 + (b3 - 0x80) = cp"
    using split4 [of cp] by (simp add: b0_def b1_def b2_def b3_def)
  have c: "isContinuation b1" "isContinuation b2" "isContinuation b3"
    unfolding b1_def b2_def b3_def by (rule continuation_low)+
  have ok: "validCodePoint 0x10000 cp"
    using assms by (simp add: validCodePoint_def)
  show ?thesis
    by (simp add: o r v c ok decoded_def)
qed

lemma decodeOctets_utf8:
  assumes "validCodePoint 0 cp"
  shows "decodeOctets (map Octet (utf8Octets cp) @ ts)
     = map_option ((@) (utf16EncodeCodePoint cp)) (decodeOctets ts)"
proof -
  from assms have le: "cp \<le> 0x10FFFF" and ns: "\<not> (0xD800 \<le> cp \<and> cp \<le> 0xDFFF)"
    by (simp_all add: validCodePoint_def)
  consider "cp < 0x80" | "0x80 \<le> cp" "cp < 0x800" | "0x800 \<le> cp" "cp < 0x10000" | "0x10000 \<le> cp"
    by linarith
  then show ?thesis
  proof cases
    case 1
    then show ?thesis by (rule decodeOctets_1)
  next
    case 2
    then show ?thesis by (rule decodeOctets_2)
  next
    case 3
    then show ?thesis using ns by (rule decodeOctets_3)
  next
    case 4
    then show ?thesis using le by (rule decodeOctets_4)
  qed
qed


lemma emit_Inr: "(emit x r = Inr t) = (\<exists>t'. r = Inr t' \<and> t = x @ t')"
  by (cases r) (auto simp: emit_def)

lemma unescaped_not_percent: "uriUnescaped c \<Longrightarrow> c \<noteq> 0x25"
  by (auto simp: uriUnescaped_def)

lemma encode_then_decode_tokens:
  "encodeURIComponent s = Inr t \<Longrightarrow> \<exists>ts. unescape t = Some ts \<and> decodeOctets ts = Some s"
proof (induction s arbitrary: t rule: length_induct)
  case (1 s)
  note IH = "1.IH" [rule_format]
  show ?case
  proof (cases s)
    case Nil
    with "1.prems" show ?thesis by simp
  next
    case (Cons c cs)
    show ?thesis
    proof (cases "uriUnescaped c")
      case True
      with "1.prems" Cons obtain t' where t': "encodeURIComponent cs = Inr t'" "t = c # t'"
        by (auto simp: emit_Inr)
      from IH [of cs t'] t'(1) Cons obtain ts where ts: "unescape t' = Some ts" "decodeOctets ts = Some cs"
        by auto
      have "unescape t = Some (Plain c # ts)"
        using unescaped_not_percent [OF True] ts(1) t'(2) by simp
      moreover have "decodeOctets (Plain c # ts) = Some s"
        using ts(2) Cons by simp
      ultimately show ?thesis by blast
    next
      case False
      note nu = False
      show ?thesis
      proof (cases "isLeadingSurrogate c")
        case True
        with "1.prems" Cons nu obtain d ds where cs: "cs = d # ds" and d: "isTrailingSurrogate d"
          by (cases cs) (auto split: if_splits)
        let ?cp = "surrogatePairToCodePoint c d"
        from "1.prems" Cons nu True cs d obtain t'
          where t': "encodeURIComponent ds = Inr t'" "t = escapeCodePoint ?cp @ t'"
          by (auto simp: emit_Inr)
        from IH [of ds t'] t'(1) Cons cs obtain ts
          where ts: "unescape t' = Some ts" "decodeOctets ts = Some ds"
          by auto
        from pair_range [OF True d] have range: "0x10000 \<le> ?cp" "?cp \<le> 0x10FFFF"
          by simp_all
        then have lt: "?cp < 0x110000" and ok: "validCodePoint 0 ?cp"
          by (simp_all add: validCodePoint_def)
        have "unescape t = Some (map Octet (utf8Octets ?cp) @ ts)"
          using unescape_escapeCodePoint [OF lt, of t'] ts(1) t'(2) by simp
        moreover have "decodeOctets (map Octet (utf8Octets ?cp) @ ts) = Some s"
          using decodeOctets_utf8 [OF ok, of ts] ts(2) utf16_pair [OF True d] Cons cs by simp
        ultimately show ?thesis by blast
      next
        case False
        with "1.prems" Cons nu have nt: "\<not> isTrailingSurrogate c"
          by (auto split: if_splits)
        let ?cp = "unat c"
        from "1.prems" Cons nu False nt obtain t'
          where t': "encodeURIComponent cs = Inr t'" "t = escapeCodePoint ?cp @ t'"
          by (auto simp: emit_Inr)
        from IH [of cs t'] t'(1) Cons obtain ts
          where ts: "unescape t' = Some ts" "decodeOctets ts = Some cs"
          by auto
        from utf16_bmp [OF False nt] have u: "utf16EncodeCodePoint ?cp = [c]" and ok: "validCodePoint 0 ?cp"
          by simp_all
        have lt: "?cp < 0x110000" using unat_lt [of c] by simp
        have "unescape t = Some (map Octet (utf8Octets ?cp) @ ts)"
          using unescape_escapeCodePoint [OF lt, of t'] ts(1) t'(2) by simp
        moreover have "decodeOctets (map Octet (utf8Octets ?cp) @ ts) = Some s"
          using decodeOctets_utf8 [OF ok, of ts] ts(2) u Cons by simp
        ultimately show ?thesis by blast
      qed
    qed
  qed
qed

lemma decode_encode:
  "encodeURIComponent s = Inr t \<Longrightarrow> decodeURIComponent t = Inr s"
  using encode_then_decode_tokens [of s t] by (auto simp: decodeURIComponent_def)

lemma unescaped_not_surrogate:
  "uriUnescaped c \<Longrightarrow> \<not> isLeadingSurrogate c \<and> \<not> isTrailingSurrogate c"
  by (auto simp: uriUnescaped_def isLeadingSurrogate_def isTrailingSurrogate_def word_le_nat_alt)

lemma lead_not_trail: "isLeadingSurrogate c \<Longrightarrow> \<not> isTrailingSurrogate c"
  by (auto simp: isLeadingSurrogate_def isTrailingSurrogate_def word_le_nat_alt)

lemma emit_ex: "(\<exists>t. emit x r = Inr t) = (\<exists>t. r = Inr t)"
  by (cases r) (auto simp: emit_def)

lemma encode_succeeds_iff: "(\<exists>t. encodeURIComponent s = Inr t) = isWellFormed s"
proof (induction s rule: isWellFormed.induct)
  case 1
  show ?case by simp
next
  case (2 c cs)
  show ?case
  proof (cases "isLeadingSurrogate c")
    case True
    then have nu: "\<not> uriUnescaped c" using unescaped_not_surrogate by blast
    show ?thesis
    proof (cases cs)
      case Nil
      with True nu show ?thesis by simp
    next
      case (Cons d ds)
      with True nu "2.IH"(1) [OF True Cons] show ?thesis
        by (simp add: emit_ex)
    qed
  next
    case False
    show ?thesis
    proof (cases "uriUnescaped c")
      case True
      with unescaped_not_surrogate [OF True] "2.IH"(2) [OF False] show ?thesis
        by (simp add: emit_ex)
    next
      case nu: False
      with False "2.IH"(2) [OF False] show ?thesis
        by (simp add: emit_ex)
    qed
  qed
qed

lemma wf_before_plain:
  "\<not> isTrailingSurrogate c \<Longrightarrow>
   isWellFormed (a @ c # b) = (isWellFormed a \<and> isWellFormed (c # b))"
proof (induction a rule: isWellFormed.induct)
  case 1
  show ?case by simp
next
  case (2 x xs)
  show ?case
  proof (cases "isLeadingSurrogate x")
    case True
    show ?thesis
    proof (cases xs)
      case Nil
      with True "2.prems" show ?thesis by simp
    next
      case (Cons d ds)
      with True "2.IH"(1) [OF True Cons "2.prems"] show ?thesis by auto
    qed
  next
    case False
    with "2.IH"(2) [OF False "2.prems"] show ?thesis by auto
  qed
qed

lemma wf_plain_prefix:
  "list_all (\<lambda>c. \<not> isLeadingSurrogate c \<and> \<not> isTrailingSurrogate c) p \<Longrightarrow>
   isWellFormed (p @ s) = isWellFormed s"
  by (induction p) simp_all

lemma ascii_plain:
  "list_all (\<lambda>c. \<not> isLeadingSurrogate c \<and> \<not> isTrailingSurrogate c) (js ''Imi'' @ [0x119] @ js '' i nazwisko: '')"
  "list_all (\<lambda>c. \<not> isLeadingSurrogate c \<and> \<not> isTrailingSurrogate c) (js ''E-mail: '')"
  "list_all (\<lambda>c. \<not> isLeadingSurrogate c \<and> \<not> isTrailingSurrogate c) (js ''Telefon: '')"
  "list_all (\<lambda>c. \<not> isLeadingSurrogate c \<and> \<not> isTrailingSurrogate c) ([0x0A] @ js ''Wiadomo'' @ [0x15B, 0x107] @ js '':'' @ [0x0A])"
  by (simp_all add: js_def isLeadingSurrogate_def isTrailingSurrogate_def)

lemma newline_plain: "\<not> isTrailingSurrogate 0x0A" "\<not> isLeadingSurrogate 0x0A"
  by (simp_all add: isLeadingSurrogate_def isTrailingSurrogate_def)

lemma wf_line:
  "list_all (\<lambda>c. \<not> isLeadingSurrogate c \<and> \<not> isTrailingSurrogate c) label \<Longrightarrow>
   isWellFormed (label @ v @ 0x0A # rest) = (isWellFormed v \<and> isWellFormed rest)"
  by (simp add: wf_plain_prefix wf_before_plain newline_plain)

lemma emailBodyText_eq:
  "emailBodyText name email phone message =
     (js ''Imi'' @ [0x119] @ js '' i nazwisko: '') @ name @ 0x0A #
     (js ''E-mail: '' @ email @ 0x0A #
     ((if phone = [] then [] else js ''Telefon: '' @ phone @ [0x0A]) @
      (([0x0A] @ js ''Wiadomo'' @ [0x15B, 0x107] @ js '':'' @ [0x0A]) @ message)))"
  by (simp add: emailBodyText_def Let_def)

lemma wf_emailBodyText:
  "isWellFormed (emailBodyText name email phone message)
     = (isWellFormed name \<and> isWellFormed email \<and> isWellFormed phone \<and> isWellFormed message)"
proof -
  have last: "isWellFormed (([0x0A] @ js ''Wiadomo'' @ [0x15B, 0x107] @ js '':'' @ [0x0A]) @ message)
      = isWellFormed message"
    by (rule wf_plain_prefix) (rule ascii_plain(4))
  have ph: "isWellFormed ((if phone = [] then [] else js ''Telefon: '' @ phone @ [0x0A]) @ rest)
      = (isWellFormed phone \<and> isWellFormed rest)" for rest
    using wf_line [OF ascii_plain(3), of phone rest] by simp
  show ?thesis
    unfolding emailBodyText_eq
    by (simp only: wf_line [OF ascii_plain(1)] wf_line [OF ascii_plain(2)] ph last)
qed

lemma encode_raises_URIError: "encodeURIComponent s = Inl err \<Longrightarrow> err = URIError"
proof (induction s arbitrary: err rule: length_induct)
  case (1 s)
  note IH = "1.IH" [rule_format]
  show ?case
  proof (cases s)
    case Nil
    with "1.prems" show ?thesis by simp
  next
    case (Cons c cs)
    have e: "emit x (encodeURIComponent ys) = Inl err \<Longrightarrow> length ys < length s \<Longrightarrow> err = URIError"
      for x ys
      using IH [of ys err] by (cases "encodeURIComponent ys") (simp_all add: emit_def)
    from "1.prems" Cons show ?thesis
      by (auto split: if_splits list.splits dest: e)
  qed
qed

lemma encode_malformed:
  "\<not> isWellFormed s \<Longrightarrow> encodeURIComponent s = Inl URIError"
proof -
  assume "\<not> isWellFormed s"
  then have n: "\<not> (\<exists>t. encodeURIComponent s = Inr t)"
    by (simp add: encode_succeeds_iff)
  show ?thesis
  proof (cases "encodeURIComponent s")
    case (Inl err)
    then show ?thesis using encode_raises_URIError [of s err] by simp
  next
    case (Inr t)
    with n show ?thesis by blast
  qed
qed

lemma uriUnescaped_iff: "uriUnescaped c = url_unreserved c"
  by (auto simp: uriUnescaped_def url_unreserved_def word_le_nat_alt word_unat_eq_iff Let_def)

lemma upperHexValue_hexDigit: "d < 16 \<Longrightarrow> upperHexValue (hexDigit d) = Some d"
  by (simp add: upperHexValue_def unat_hexDigit Let_def)

lemma unreserved_not_percent: "url_unreserved c \<Longrightarrow> c \<noteq> 0x25"
  by (auto simp: url_unreserved_def Let_def)

lemma percent_encoded_escape:
  assumes "b < 256"
  shows "percent_encoded (percentEscape b @ t) = (\<not> url_unreserved (of_nat b) \<and> percent_encoded t)"
proof -
  from assms have "b div 16 < 16" "b mod 16 < 16" by auto
  then have h: "upperHexValue (hexDigit (b div 16)) = Some (b div 16)"
    "upperHexValue (hexDigit (b mod 16)) = Some (b mod 16)"
    by (simp_all add: upperHexValue_hexDigit)
  have "16 * (b div 16) + b mod 16 = b" by simp
  then show ?thesis
    by (simp add: percentEscape_def h)
qed

lemma percent_encoded_escapes:
  "\<forall>b \<in> set bs. b < 256 \<and> \<not> url_unreserved (of_nat b) \<Longrightarrow>
   percent_encoded (concat (map percentEscape bs) @ t) = percent_encoded t"
proof (induction bs)
  case Nil
  show ?case by simp
next
  case (Cons b bs)
  then have b: "b < 256" "\<not> url_unreserved (of_nat b)"
    and ih: "percent_encoded (concat (map percentEscape bs) @ t) = percent_encoded t"
    by simp_all
  show ?case
    using percent_encoded_escape [OF b(1), of "concat (map percentEscape bs) @ t"] b(2) ih
    by simp
qed

lemma high_octet_reserved: "0x80 \<le> b \<Longrightarrow> b < 256 \<Longrightarrow> \<not> url_unreserved (of_nat b)"
  using unat_of_nat16 [of b] by (simp add: url_unreserved_def Let_def)

lemma utf8Octets_high:
  "0x80 \<le> cp \<Longrightarrow> cp < 0x110000 \<Longrightarrow> \<forall>b \<in> set (utf8Octets cp). 0x80 \<le> b \<and> b < 256"
  by (auto simp: utf8Octets_def)

lemma percent_encoded_code_point:
  assumes "cp < 0x110000" and "cp < 0x80 \<longrightarrow> \<not> url_unreserved (of_nat cp)"
  shows "percent_encoded (escapeCodePoint cp @ t) = percent_encoded t"
proof (cases "cp < 0x80")
  case True
  with assms have "\<forall>b \<in> set (utf8Octets cp). b < 256 \<and> \<not> url_unreserved (of_nat b)"
    by (simp add: utf8Octets_def)
  then show ?thesis
    unfolding escapeCodePoint_def by (rule percent_encoded_escapes)
next
  case False
  then have "\<forall>b \<in> set (utf8Octets cp). 0x80 \<le> b \<and> b < 256"
    using utf8Octets_high [of cp] assms(1) by simp
  then have "\<forall>b \<in> set (utf8Octets cp). b < 256 \<and> \<not> url_unreserved (of_nat b)"
    using high_octet_reserved by blast
  then show ?thesis
    unfolding escapeCodePoint_def by (rule percent_encoded_escapes)
qed

lemma encode_is_percent_encoded:
  "encodeURIComponent s = Inr t \<Longrightarrow> percent_encoded t"
proof (induction s arbitrary: t rule: length_induct)
  case (1 s)
  note IH = "1.IH" [rule_format]
  show ?case
  proof (cases s)
    case Nil
    with "1.prems" show ?thesis by simp
  next
    case (Cons c cs)
    show ?thesis
    proof (cases "uriUnescaped c")
      case True
      with "1.prems" Cons obtain t' where t': "encodeURIComponent cs = Inr t'" "t = c # t'"
        by (auto simp: emit_Inr)
      from IH [of cs t'] t'(1) Cons have "percent_encoded t'" by simp
      moreover from True have u: "url_unreserved c" by (simp add: uriUnescaped_iff)
      ultimately show ?thesis
        using unreserved_not_percent [OF u] t'(2) by simp
    next
      case False
      note nu = False
      show ?thesis
      proof (cases "isLeadingSurrogate c")
        case True
        with "1.prems" Cons nu obtain d ds where cs: "cs = d # ds" and d: "isTrailingSurrogate d"
          by (cases cs) (auto split: if_splits)
        let ?cp = "surrogatePairToCodePoint c d"
        from "1.prems" Cons nu True cs d obtain t'
          where t': "encodeURIComponent ds = Inr t'" "t = escapeCodePoint ?cp @ t'"
          by (auto simp: emit_Inr)
        from IH [of ds t'] t'(1) Cons cs have p: "percent_encoded t'" by simp
        from pair_range [OF True d] have "?cp < 0x110000" "\<not> ?cp < 0x80" by simp_all
        then show ?thesis
          using percent_encoded_code_point [of ?cp t'] p t'(2) by simp
      next
        case False
        with "1.prems" Cons nu have nt: "\<not> isTrailingSurrogate c"
          by (auto split: if_splits)
        from "1.prems" Cons nu False nt obtain t'
          where t': "encodeURIComponent cs = Inr t'" "t = escapeCodePoint (unat c) @ t'"
          by (auto simp: emit_Inr)
        from IH [of cs t'] t'(1) Cons have p: "percent_encoded t'" by simp
        have lt: "unat c < 0x110000" using unat_lt [of c] by simp
        have "\<not> url_unreserved (of_nat (unat c))"
          using nu by (simp add: uriUnescaped_iff)
        then show ?thesis
          using percent_encoded_code_point [OF lt, of t'] p t'(2) by simp
      qed
    qed
  qed
qed

subsection \<open>Trimming\<close>

text \<open>
  \<open>trim\<close> takes whitespace off both ends and nothing else: the value is the trimmed
  value between two runs of whitespace, and a trimmed value that is not empty neither
  starts nor ends with whitespace.
\<close>

lemma trim_suffix:
  "dropWhile isWhiteSpace s
     = trim s @ rev (takeWhile isWhiteSpace (rev (dropWhile isWhiteSpace s)))"
proof -
  let ?m = "dropWhile isWhiteSpace s"
  have "rev (takeWhile isWhiteSpace (rev ?m) @ dropWhile isWhiteSpace (rev ?m))
      = rev (dropWhile isWhiteSpace (rev ?m)) @ rev (takeWhile isWhiteSpace (rev ?m))"
    by (rule rev_append)
  then have "rev (rev ?m) = rev (dropWhile isWhiteSpace (rev ?m)) @ rev (takeWhile isWhiteSpace (rev ?m))"
    by (simp only: takeWhile_dropWhile_id)
  then show ?thesis
    by (simp only: rev_rev_ident trim_def)
qed

lemma trim_strips:
  "\<exists>before after. s = before @ trim s @ after
      \<and> list_all isWhiteSpace before \<and> list_all isWhiteSpace after"
proof -
  let ?m = "dropWhile isWhiteSpace s"
  have s: "s = takeWhile isWhiteSpace s @ ?m" by simp
  have m: "?m = trim s @ rev (takeWhile isWhiteSpace (rev ?m))"
    by (rule trim_suffix)
  have a: "list_all isWhiteSpace (takeWhile isWhiteSpace s)"
    by (simp add: list_all_iff) (meson set_takeWhileD)
  have b: "list_all isWhiteSpace (rev (takeWhile isWhiteSpace (rev ?m)))"
    by (simp add: list_all_iff) (meson set_takeWhileD)
  from s m have "s = takeWhile isWhiteSpace s @ trim s @ rev (takeWhile isWhiteSpace (rev ?m))"
    by simp
  with a b show ?thesis by blast
qed

lemma trim_ends:
  "trim s \<noteq> [] \<Longrightarrow> \<not> isWhiteSpace (hd (trim s)) \<and> \<not> isWhiteSpace (last (trim s))"
proof -
  assume ne: "trim s \<noteq> []"
  let ?m = "dropWhile isWhiteSpace s"
  let ?r = "dropWhile isWhiteSpace (rev ?m)"
  from ne have r: "?r \<noteq> []" by (simp add: trim_def)
  then have l: "\<not> isWhiteSpace (hd ?r)" by (rule hd_dropWhile)
  have "last (trim s) = hd ?r"
    using r by (simp add: trim_def last_rev)
  with l have one: "\<not> isWhiteSpace (last (trim s))" by simp
  have mne: "?m \<noteq> []"
  proof
    assume e: "?m = []"
    have "?r = []" unfolding e by simp
    with r show False by (rule notE)
  qed
  then have h: "\<not> isWhiteSpace (hd ?m)" by (rule hd_dropWhile)
  have "?m = trim s @ rev (takeWhile isWhiteSpace (rev ?m))"
    by (rule trim_suffix)
  then have "hd ?m = hd (trim s @ rev (takeWhile isWhiteSpace (rev ?m)))" by (rule arg_cong)
  with ne have "hd ?m = hd (trim s)" by simp
  with h one show ?thesis by simp
qed

subsection \<open>A valid submit\<close>

lemma submitListener_valid:
  assumes "nameInput d = Some n" "emailInput d = Some e" "messageInput d = Some m"
    and "passes (Some n)" "passes (Some e)" "passes (Some m)"
  shows "submitListener d =
     (case buildEmailBody (trim (val n)) (trim (val e)) (phoneValue d) (trim (val m)) of
        Inl err \<Rightarrow> (Some err, afterValidation d)
      | Inr body \<Rightarrow>
          (None, showFormSuccess
                   ((afterValidation d)\<lparr>navigations :=
                       mailtoLink (js ''Zapytanie%20ze%20strony%20ITEasier'') body # navigations d\<rparr>)))"
  using assms
  by (simp add: submitListener_def validateField_eq Let_def subject_encoded marked_def
      afterValidation_def phoneValue_def split: sum.splits)

lemma emailBodyText_lines:
  "emailBodyText name email phone message =
     js ''Imi'' @ [0x119] @ js '' i nazwisko: '' @ name @ [0x0A]
     @ js ''E-mail: '' @ email @ [0x0A]
     @ (if phone = [] then [] else js ''Telefon: '' @ phone @ [0x0A])
     @ [0x0A] @ js ''Wiadomo'' @ [0x15B, 0x107] @ js '':'' @ [0x0A] @ message"
  by (simp add: emailBodyText_def Let_def)

lemma mailtoLink_literal:
  "mailtoLink (js ''Zapytanie%20ze%20strony%20ITEasier'') body
     = js ''mailto:kontakt@iteasier.pl?subject=Zapytanie%20ze%20strony%20ITEasier&body='' @ body"
  by (simp add: mailtoLink_def js_def)

text \<open>
  C1 (as amended): take a submit in which the name, e-mail and message inputs exist and
  pass validation. If none of the trimmed values (the phone's included) holds an
  unpaired surrogate, the submit listener raises nothing and assigns one link to
  \<open>window.location.href\<close>:
  \<open>mailto:kontakt@iteasier.pl?subject=Zapytanie%20ze%20strony%20ITEasier&body=\<close>
  followed by a body that is in percent-encoded form, is what \<open>encodeURIComponent\<close>
  gives for the text below, and decodes to that text: the line \<open>Imie i nazwisko:\<close>
  (with the Polish e) and the trimmed name, the line \<open>E-mail:\<close> and the trimmed
  e-mail, the line \<open>Telefon:\<close> and the trimmed phone exactly when that is not empty, an
  empty line, the line \<open>Wiadomosc:\<close> (Polish s and c) and the trimmed message; a
  success notice is inserted when the form has a submit button. If one of the trimmed
  values does hold an unpaired surrogate, the listener raises a URIError, assigns no link
  and inserts no notice.
\<close>

theorem valid_submit_builds_mailto:
  "nameInput d = Some n \<and> emailInput d = Some e \<and> messageInput d = Some m
   \<and> passes (Some n) \<and> passes (Some e) \<and> passes (Some m)
   \<longrightarrow>
     (isWellFormed (trim (val n)) \<and> isWellFormed (trim (val e))
        \<and> isWellFormed (phoneValue d) \<and> isWellFormed (trim (val m))
      \<longrightarrow> (\<exists>body.
            fst (submitListener d) = None
          \<and> navigations (snd (submitListener d))
              = (js ''mailto:kontakt@iteasier.pl?subject=Zapytanie%20ze%20strony%20ITEasier&body=''
                 @ body) # navigations d
          \<and> successNotices (snd (submitListener d))
              = (if submitBtn d then successNotices d + 1 else successNotices d)
          \<and> percent_encoded body
          \<and> encodeURIComponent
                (js ''Imi'' @ [0x119] @ js '' i nazwisko: '' @ trim (val n) @ [0x0A]
                 @ js ''E-mail: '' @ trim (val e) @ [0x0A]
                 @ (if phoneValue d = [] then [] else js ''Telefon: '' @ phoneValue d @ [0x0A])
                 @ [0x0A] @ js ''Wiadomo'' @ [0x15B, 0x107] @ js '':'' @ [0x0A] @ trim (val m))
              = Inr body
          \<and> decodeURIComponent body
              = Inr (js ''Imi'' @ [0x119] @ js '' i nazwisko: '' @ trim (val n) @ [0x0A]
                     @ js ''E-mail: '' @ trim (val e) @ [0x0A]
                     @ (if phoneValue d = [] then [] else js ''Telefon: '' @ phoneValue d @ [0x0A])
                     @ [0x0A] @ js ''Wiadomo'' @ [0x15B, 0x107] @ js '':'' @ [0x0A] @ trim (val m))))
   \<and> (\<not> (isWellFormed (trim (val n)) \<and> isWellFormed (trim (val e))
            \<and> isWellFormed (phoneValue d) \<and> isWellFormed (trim (val m)))
      \<longrightarrow> fst (submitListener d) = Some URIError
          \<and> navigations (snd (submitListener d)) = navigations d
          \<and> successNotices (snd (submitListener d)) = successNotices d)"
proof
  assume a: "nameInput d = Some n \<and> emailInput d = Some e \<and> messageInput d = Some m
   \<and> passes (Some n) \<and> passes (Some e) \<and> passes (Some m)"
  let ?text = "emailBodyText (trim (val n)) (trim (val e)) (phoneValue d) (trim (val m))"
  let ?lines = "js ''Imi'' @ [0x119] @ js '' i nazwisko: '' @ trim (val n) @ [0x0A]
                 @ js ''E-mail: '' @ trim (val e) @ [0x0A]
                 @ (if phoneValue d = [] then [] else js ''Telefon: '' @ phoneValue d @ [0x0A])
                 @ [0x0A] @ js ''Wiadomo'' @ [0x15B, 0x107] @ js '':'' @ [0x0A] @ trim (val m)"
  have lines: "?text = ?lines"
    by (rule emailBodyText_lines)
  have good: "\<exists>body.
            fst (submitListener d) = None
          \<and> navigations (snd (submitListener d))
              = (js ''mailto:kontakt@iteasier.pl?subject=Zapytanie%20ze%20strony%20ITEasier&body=''
                 @ body) # navigations d
          \<and> successNotices (snd (submitListener d))
              = (if submitBtn d then successNotices d + 1 else successNotices d)
          \<and> percent_encoded body
          \<and> encodeURIComponent ?lines = Inr body
          \<and> decodeURIComponent body = Inr ?lines"
    if w: "isWellFormed (trim (val n)) \<and> isWellFormed (trim (val e))
        \<and> isWellFormed (phoneValue d) \<and> isWellFormed (trim (val m))"
  proof -
    from w have "isWellFormed ?text"
      by (simp add: wf_emailBodyText)
    then obtain body where body: "encodeURIComponent ?text = Inr body"
      using encode_succeeds_iff [of ?text] by blast
    then have dec: "decodeURIComponent body = Inr ?text"
      by (rule decode_encode)
    from body have pe: "percent_encoded body"
      by (rule encode_is_percent_encoded)
    from a have s: "submitListener d =
        (None, showFormSuccess
                 ((afterValidation d)\<lparr>navigations :=
                     mailtoLink (js ''Zapytanie%20ze%20strony%20ITEasier'') body # navigations d\<rparr>))"
      using submitListener_valid [of d n e m] body by (simp add: buildEmailBody_def)
    have "fst (submitListener d) = None
          \<and> navigations (snd (submitListener d))
              = (js ''mailto:kontakt@iteasier.pl?subject=Zapytanie%20ze%20strony%20ITEasier&body=''
                 @ body) # navigations d
          \<and> successNotices (snd (submitListener d))
              = (if submitBtn d then successNotices d + 1 else successNotices d)"
      unfolding s mailtoLink_literal by (simp add: showFormSuccess_def afterValidation_def)
    with pe body dec show ?thesis
      unfolding lines by blast
  qed
  have bad: "fst (submitListener d) = Some URIError
          \<and> navigations (snd (submitListener d)) = navigations d
          \<and> successNotices (snd (submitListener d)) = successNotices d"
    if nw: "\<not> (isWellFormed (trim (val n)) \<and> isWellFormed (trim (val e))
            \<and> isWellFormed (phoneValue d) \<and> isWellFormed (trim (val m)))"
  proof -
    from nw have "\<not> isWellFormed ?text"
      by (simp add: wf_emailBodyText)
    then have "encodeURIComponent ?text = Inl URIError"
      by (rule encode_malformed)
    with a have "submitListener d = (Some URIError, afterValidation d)"
      using submitListener_valid [of d n e m] by (simp add: buildEmailBody_def)
    then show ?thesis
      by (simp add: afterValidation_def)
  qed
  from good bad
  show "(isWellFormed (trim (val n)) \<and> isWellFormed (trim (val e))
        \<and> isWellFormed (phoneValue d) \<and> isWellFormed (trim (val m))
      \<longrightarrow> (\<exists>body.
            fst (submitListener d) = None
          \<and> navigations (snd (submitListener d))
              = (js ''mailto:kontakt@iteasier.pl?subject=Zapytanie%20ze%20strony%20ITEasier&body=''
                 @ body) # navigations d
          \<and> successNotices (snd (submitListener d))
              = (if submitBtn d then successNotices d + 1 else successNotices d)
          \<and> percent_encoded body
          \<and> encodeURIComponent ?lines = Inr body
          \<and> decodeURIComponent body = Inr ?lines))
   \<and> (\<not> (isWellFormed (trim (val n)) \<and> isWellFormed (trim (val e))
            \<and> isWellFormed (phoneValue d) \<and> isWellFormed (trim (val m)))
      \<longrightarrow> fst (submitListener d) = Some URIError
          \<and> navigations (snd (submitListener d)) = navigations d
          \<and> successNotices (snd (submitListener d)) = successNotices d)"
    by blast
qed

text \<open>
  The example of the specification: name \<open>Jan Kowalski\<close>, e-mail
  \<open>jan@example.com\<close>, no phone, message \<open>Czesc\<close> (with the Polish s and c). The one
  link assigned is the one below; its body is in percent-encoded form and decodes to the
  name line, the e-mail line, an empty line, the message label and the message, with no
  \<open>Telefon:\<close> line. With a message that ends in half a surrogate pair instead, the
  listener raises the URIError and assigns nothing.
\<close>

theorem valid_submit_builds_mailto_witness:
  "fst (submitListener (example_form (js ''Jan Kowalski'') (js ''jan@example.com'') []
          (js ''Cze'' @ [0x15B, 0x107]))) = None
   \<and> navigations (snd (submitListener (example_form (js ''Jan Kowalski'') (js ''jan@example.com'') []
          (js ''Cze'' @ [0x15B, 0x107]))))
       = [js ''mailto:kontakt@iteasier.pl?subject=Zapytanie%20ze%20strony%20ITEasier&body=''
          @ js ''Imi%C4%99%20i%20nazwisko%3A%20Jan%20Kowalski%0AE-mail%3A%20jan%40example.com''
          @ js ''%0A%0AWiadomo%C5%9B%C4%87%3A%0ACze%C5%9B%C4%87'']
   \<and> percent_encoded
         (js ''Imi%C4%99%20i%20nazwisko%3A%20Jan%20Kowalski%0AE-mail%3A%20jan%40example.com''
          @ js ''%0A%0AWiadomo%C5%9B%C4%87%3A%0ACze%C5%9B%C4%87'')
   \<and> decodeURIComponent
         (js ''Imi%C4%99%20i%20nazwisko%3A%20Jan%20Kowalski%0AE-mail%3A%20jan%40example.com''
          @ js ''%0A%0AWiadomo%C5%9B%C4%87%3A%0ACze%C5%9B%C4%87'')
       = Inr (js ''Imi'' @ [0x119] @ js '' i nazwisko: Jan Kowalski'' @ [0x0A]
              @ js ''E-mail: jan@example.com'' @ [0x0A]
              @ [0x0A] @ js ''Wiadomo'' @ [0x15B, 0x107] @ js '':'' @ [0x0A]
              @ js ''Cze'' @ [0x15B, 0x107])
   \<and> \<not> (\<exists>before after.
          js ''Imi'' @ [0x119] @ js '' i nazwisko: Jan Kowalski'' @ [0x0A]
              @ js ''E-mail: jan@example.com'' @ [0x0A]
              @ [0x0A] @ js ''Wiadomo'' @ [0x15B, 0x107] @ js '':'' @ [0x0A]
              @ js ''Cze'' @ [0x15B, 0x107]
          = before @ js ''Telefon: '' @ after)
   \<and> fst (submitListener (example_form (js ''Jan Kowalski'') (js ''jan@example.com'') []
          (js ''Cze'' @ [0xD83D]))) = Some URIError
   \<and> navigations (snd (submitListener (example_form (js ''Jan Kowalski'') (js ''jan@example.com'') []
          (js ''Cze'' @ [0xD83D])))) = []"
proof -
  let ?d = "example_form (js ''Jan Kowalski'') (js ''jan@example.com'') [] (js ''Cze'' @ [0x15B, 0x107])"
  let ?d2 = "example_form (js ''Jan Kowalski'') (js ''jan@example.com'') [] (js ''Cze'' @ [0xD83D])"
  let ?n = "example_field (js ''name'') (js ''Jan Kowalski'') True 11"
  let ?e = "example_field (js ''email'') (js ''jan@example.com'') True 12"
  let ?m = "example_field (js ''message'') (js ''Cze'' @ [0x15B, 0x107]) True 14"
  let ?m2 = "example_field (js ''message'') (js ''Cze'' @ [0xD83D]) True 14"
  let ?text = "js ''Imi'' @ [0x119] @ js '' i nazwisko: Jan Kowalski'' @ [0x0A]
              @ js ''E-mail: jan@example.com'' @ [0x0A]
              @ [0x0A] @ js ''Wiadomo'' @ [0x15B, 0x107] @ js '':'' @ [0x0A]
              @ js ''Cze'' @ [0x15B, 0x107]"
  let ?enc = "js ''Imi%C4%99%20i%20nazwisko%3A%20Jan%20Kowalski%0AE-mail%3A%20jan%40example.com''
          @ js ''%0A%0AWiadomo%C5%9B%C4%87%3A%0ACze%C5%9B%C4%87''"
  have inputs: "nameInput ?d = Some ?n" "emailInput ?d = Some ?e" "messageInput ?d = Some ?m"
    "navigations ?d = []"
    by (simp_all add: example_form_def)
  have inputs2: "nameInput ?d2 = Some ?n" "emailInput ?d2 = Some ?e" "messageInput ?d2 = Some ?m2"
    "navigations ?d2 = []"
    by (simp_all add: example_form_def)
  have tn: "trim (val ?n) = js ''Jan Kowalski''"
    by (simp add: example_field_def trim_def js_def isWhiteSpace_def)
  have te: "trim (val ?e) = js ''jan@example.com''"
    by (simp add: example_field_def trim_def js_def isWhiteSpace_def)
  have tm: "trim (val ?m) = js ''Cze'' @ [0x15B, 0x107]"
    by (simp add: example_field_def trim_def js_def isWhiteSpace_def)
  have tm2: "trim (val ?m2) = js ''Cze'' @ [0xD83D]"
    by (simp add: example_field_def trim_def js_def isWhiteSpace_def)
  have tp: "phoneValue ?d = []" "phoneValue ?d2 = []"
    by (simp_all add: phoneValue_def example_form_def example_field_def trim_def)
  have pn: "errorMessageOf ?n = []"
    by (simp add: errorMessageOf_def tn Let_def) (simp add: example_field_def js_def)
  have "js ''jan@example.com'' = js ''jan'' @ [0x40] @ js ''example'' @ [0x2E] @ js ''com''
      \<and> js ''jan'' \<noteq> [] \<and> js ''example'' \<noteq> [] \<and> js ''com'' \<noteq> []
      \<and> list_all plain_char (js ''jan'') \<and> list_all plain_char (js ''example'')
      \<and> list_all plain_char (js ''com'')"
    by (simp add: js_def plain_char_def isWhiteSpace_def)
  then have "local_at_domain_dot_tld (trim (val ?e))"
    unfolding te local_at_domain_dot_tld_def by blast
  moreover have "fname ?e = js ''email''" "trim (val ?e) \<noteq> []"
    by (simp_all add: te) (simp_all add: example_field_def js_def)
  ultimately have pe: "errorMessageOf ?e = []"
    by (simp add: errorMessageOf_email)
  have pm: "errorMessageOf ?m = []"
    by (simp add: errorMessageOf_def tm Let_def) (simp add: example_field_def js_def)
  have pm2: "errorMessageOf ?m2 = []"
    by (simp add: errorMessageOf_def tm2 Let_def) (simp add: example_field_def js_def)
  have wf: "isWellFormed (js ''Jan Kowalski'')" "isWellFormed (js ''jan@example.com'')"
    "isWellFormed (js ''Cze'' @ [0x15B, 0x107])"
    by (simp_all add: js_def isLeadingSurrogate_def isTrailingSurrogate_def)
  have nwf: "\<not> isWellFormed (js ''Cze'' @ [0xD83D])"
    by (simp add: js_def isLeadingSurrogate_def isTrailingSurrogate_def)
  have present: "nameInput ?d = Some ?n \<and> emailInput ?d = Some ?e \<and> messageInput ?d = Some ?m
      \<and> passes (Some ?n) \<and> passes (Some ?e) \<and> passes (Some ?m)"
    by (simp add: inputs passes_Some pn pe pm)
  have wellformed: "isWellFormed (trim (val ?n)) \<and> isWellFormed (trim (val ?e))
      \<and> isWellFormed (phoneValue ?d) \<and> isWellFormed (trim (val ?m))"
    by (simp add: wf tn te tm tp)
  from valid_submit_builds_mailto [of ?d ?n ?e ?m] present wellformed
  obtain body where r: "fst (submitListener ?d) = None"
    and nav0: "navigations (snd (submitListener ?d))
        = (js ''mailto:kontakt@iteasier.pl?subject=Zapytanie%20ze%20strony%20ITEasier&body=''
           @ body) # navigations ?d"
    and form: "percent_encoded body"
    and enc0: "encodeURIComponent
                (js ''Imi'' @ [0x119] @ js '' i nazwisko: '' @ trim (val ?n) @ [0x0A]
                 @ js ''E-mail: '' @ trim (val ?e) @ [0x0A]
                 @ (if phoneValue ?d = [] then [] else js ''Telefon: '' @ phoneValue ?d @ [0x0A])
                 @ [0x0A] @ js ''Wiadomo'' @ [0x15B, 0x107] @ js '':'' @ [0x0A] @ trim (val ?m))
              = Inr body"
    and dec0: "decodeURIComponent body
            = Inr (js ''Imi'' @ [0x119] @ js '' i nazwisko: '' @ trim (val ?n) @ [0x0A]
                   @ js ''E-mail: '' @ trim (val ?e) @ [0x0A]
                   @ (if phoneValue ?d = [] then [] else js ''Telefon: '' @ phoneValue ?d @ [0x0A])
                   @ [0x0A] @ js ''Wiadomo'' @ [0x15B, 0x107] @ js '':'' @ [0x0A] @ trim (val ?m))"
    by blast
  have "encodeURIComponent
          (js ''Imi'' @ [0x119] @ js '' i nazwisko: '' @ js ''Jan Kowalski'' @ [0x0A]
           @ js ''E-mail: '' @ js ''jan@example.com'' @ [0x0A]
           @ (if [] = ([]::jsstring) then [] else js ''Telefon: '' @ [] @ [0x0A])
           @ [0x0A] @ js ''Wiadomo'' @ [0x15B, 0x107] @ js '':'' @ [0x0A] @ js ''Cze'' @ [0x15B, 0x107])
        = Inr ?enc"
    by (simp add: js_def uriUnescaped_def emit_def isLeadingSurrogate_def
        isTrailingSurrogate_def escapeCodePoint_def utf8Octets_def percentEscape_def hexDigit_def)
  with enc0 [unfolded tn te tm tp] have body: "body = ?enc"
    by simp
  from nav0 have nav: "navigations (snd (submitListener ?d))
        = [js ''mailto:kontakt@iteasier.pl?subject=Zapytanie%20ze%20strony%20ITEasier&body='' @ ?enc]"
    by (simp add: inputs body)
  from dec0 [unfolded tn te tm tp] have dec: "decodeURIComponent ?enc = Inr ?text"
    by (simp add: js_def body)
  from form have form': "percent_encoded ?enc"
    by (simp add: body)
  have "0x54 \<notin> set ?text"
    by (simp add: js_def)
  moreover have "0x54 \<in> set (before @ js ''Telefon: '' @ after)" for before after
    by (simp add: js_def)
  ultimately have nophone: "\<not> (\<exists>before after. ?text = before @ js ''Telefon: '' @ after)"
    by metis
  have present2: "nameInput ?d2 = Some ?n \<and> emailInput ?d2 = Some ?e \<and> messageInput ?d2 = Some ?m2
      \<and> passes (Some ?n) \<and> passes (Some ?e) \<and> passes (Some ?m2)"
    by (simp add: inputs2 passes_Some pn pe pm2)
  have malformed: "\<not> (isWellFormed (trim (val ?n)) \<and> isWellFormed (trim (val ?e))
      \<and> isWellFormed (phoneValue ?d2) \<and> isWellFormed (trim (val ?m2)))"
    by (simp add: nwf tm2)
  from valid_submit_builds_mailto [of ?d2 ?n ?e ?m2] present2 malformed
  have bad: "fst (submitListener ?d2) = Some URIError"
    "navigations (snd (submitListener ?d2)) = navigations ?d2"
    by blast+
  from r nav form' dec nophone bad inputs2(4) show ?thesis
    by simp
qed

text \<open>
  C1 fails as stated: a name that is one unpaired surrogate (a value of an input is any
  sequence of code units) passes validation together with a valid e-mail and message,
  and the listener raises the URIError of \<open>encodeURIComponent\<close>; no link is assigned
  and no notice inserted.
\<close>

theorem valid_submit_builds_mailto_counterexample:
  "passes (nameInput (example_form [0xD800] (js ''jan@example.com'') [] (js ''Hello'')))
   \<and> passes (emailInput (example_form [0xD800] (js ''jan@example.com'') [] (js ''Hello'')))
   \<and> passes (messageInput (example_form [0xD800] (js ''jan@example.com'') [] (js ''Hello'')))
   \<and> fst (submitListener (example_form [0xD800] (js ''jan@example.com'') [] (js ''Hello'')))
       = Some URIError
   \<and> navigations (snd (submitListener (example_form [0xD800] (js ''jan@example.com'') [] (js ''Hello''))))
       = []
   \<and> successNotices (snd (submitListener (example_form [0xD800] (js ''jan@example.com'') [] (js ''Hello''))))
       = 0"
proof -
  let ?d = "example_form [0xD800] (js ''jan@example.com'') [] (js ''Hello'')"
  let ?n = "example_field (js ''name'') [0xD800] True 11"
  let ?e = "example_field (js ''email'') (js ''jan@example.com'') True 12"
  let ?m = "example_field (js ''message'') (js ''Hello'') True 14"
  have inputs: "nameInput ?d = Some ?n" "emailInput ?d = Some ?e" "messageInput ?d = Some ?m"
    "navigations ?d = []" "successNotices ?d = 0"
    by (simp_all add: example_form_def)
  have tn: "trim (val ?n) = [0xD800]"
    by (simp add: example_field_def trim_def isWhiteSpace_def)
  have te: "trim (val ?e) = js ''jan@example.com''"
    by (simp add: example_field_def trim_def js_def isWhiteSpace_def)
  have tm: "trim (val ?m) = js ''Hello''"
    by (simp add: example_field_def trim_def js_def isWhiteSpace_def)
  have tp: "phoneValue ?d = []"
    by (simp add: phoneValue_def example_form_def example_field_def trim_def)
  have pn: "errorMessageOf ?n = []"
    by (simp add: errorMessageOf_def tn Let_def) (simp add: example_field_def js_def)
  have "js ''jan@example.com'' = js ''jan'' @ [0x40] @ js ''example'' @ [0x2E] @ js ''com''
      \<and> js ''jan'' \<noteq> [] \<and> js ''example'' \<noteq> [] \<and> js ''com'' \<noteq> []
      \<and> list_all plain_char (js ''jan'') \<and> list_all plain_char (js ''example'')
      \<and> list_all plain_char (js ''com'')"
    by (simp add: js_def plain_char_def isWhiteSpace_def)
  then have "local_at_domain_dot_tld (trim (val ?e))"
    unfolding te local_at_domain_dot_tld_def by blast
  moreover have "fname ?e = js ''email''" "trim (val ?e) \<noteq> []"
    by (simp_all add: te) (simp_all add: example_field_def js_def)
  ultimately have pe: "errorMessageOf ?e = []"
    by (simp add: errorMessageOf_email)
  have pm: "errorMessageOf ?m = []"
    by (simp add: errorMessageOf_def tm Let_def) (simp add: example_field_def js_def)
  have "\<not> isWellFormed (emailBodyText [0xD800] (js ''jan@example.com'') [] (js ''Hello''))"
    by (simp add: wf_emailBodyText isLeadingSurrogate_def)
  then have "encodeURIComponent (emailBodyText [0xD800] (js ''jan@example.com'') [] (js ''Hello''))
      = Inl URIError"
    using encode_succeeds_iff [of "emailBodyText [0xD800] (js ''jan@example.com'') [] (js ''Hello'')"]
    by (cases "encodeURIComponent (emailBodyText [0xD800] (js ''jan@example.com'') [] (js ''Hello''))")
       (auto intro: js_error.exhaust encode_raises_URIError)
  then have "submitListener ?d = (Some URIError, afterValidation ?d)"
    using submitListener_valid [of ?d ?n ?e ?m] inputs pn pe pm tn te tm tp
    by (simp add: passes_Some buildEmailBody_def)
  then show ?thesis
    by (simp add: inputs passes_Some pn pe pm afterValidation_def)
qed

end
